theory Spec2Isabelle
  imports Main
begin

section \<open>JavaScript strings\<close>

text \<open>
  A JavaScript string whose code units are all below 256 is modelled as a
  \<^typ>\<open>string\<close>, one \<^typ>\<open>char\<close> per code unit; strings with a code unit from 256
  upwards are outside the model.

  \<open>upper_char\<close> and \<open>lower_char\<close> exchange the two cases of the 26 ASCII letters and keep
  every other code unit. They serve the regular expressions: under the \<open>i\<close> flag (without
  the \<open>u\<close> flag) a code unit from 128 upwards is never identified with an ASCII one, and
  all patterns of the program are ASCII. \<open>toUpperCase\<close> is what \<open>String.prototype.toUpperCase\<close>
  does on ASCII strings; the program applies it to words only (line 73).
\<close>

definition in_range :: "char \<Rightarrow> char \<times> char \<Rightarrow> bool" where
  "in_range c r = ((of_char (fst r) :: nat) \<le> of_char c \<and> (of_char c :: nat) \<le> of_char (snd r))"

text \<open>
  An ASCII letter and its other case differ in the bit of value 32 only: it is cleared
  in the upper case letter and set in the lower case one.
\<close>

definition upper_char :: "char \<Rightarrow> char" where
  "upper_char c =
     (if in_range c (CHR ''a'', CHR ''z'')
      then Char (digit0 c) (digit1 c) (digit2 c) (digit3 c) (digit4 c) False (digit6 c) (digit7 c)
      else c)"

definition lower_char :: "char \<Rightarrow> char" where
  "lower_char c =
     (if in_range c (CHR ''A'', CHR ''Z'')
      then Char (digit0 c) (digit1 c) (digit2 c) (digit3 c) (digit4 c) True (digit6 c) (digit7 c)
      else c)"

definition toUpperCase :: "string \<Rightarrow> string" where
  "toUpperCase s = map upper_char s"

text \<open>
  \<open>String.prototype.toLowerCase\<close> on code units below 256: the capital letters are
  \<open>A\<close> to \<open>Z\<close> and, in the Latin-1 range, the code units 192 to 214 and 216 to 222
  (215 is the multiplication sign); each goes to the code unit 32 higher, which sets the
  bit of value 32. Every other code unit below 256 is kept, and the mapping of a code
  unit does not depend on its neighbours.
\<close>

definition lower_unit :: "char \<Rightarrow> char" where
  "lower_unit c =
     (if in_range c (CHR ''A'', CHR ''Z'') \<or> in_range c (CHR 0xC0, CHR 0xD6)
         \<or> in_range c (CHR 0xD8, CHR 0xDE)
      then Char (digit0 c) (digit1 c) (digit2 c) (digit3 c) (digit4 c) True (digit6 c) (digit7 c)
      else c)"

definition toLowerCase :: "string \<Rightarrow> string" where
  "toLowerCase s = map lower_unit s"

text \<open>\<open>s.indexOf(c)\<close>: the index of the first occurrence, or \<open>-1\<close>.\<close>

definition indexOf :: "string \<Rightarrow> char \<Rightarrow> int" where
  "indexOf s c = (if c \<in> set s then int (length (takeWhile (\<lambda>x. x \<noteq> c) s)) else - 1)"

text \<open>
  \<open>s.substr(start, length)\<close> as ECMAScript defines it: a negative start counts from the
  end, a missing length (\<open>None\<close>) means up to the end, and a length that is not positive
  gives the empty string.
\<close>

definition substr :: "string \<Rightarrow> int \<Rightarrow> int option \<Rightarrow> string" where
  "substr s start len =
     (let size = int (length s);
          intStart = (if start < 0 then max (size + start) 0 else start);
          resultLength = (case len of None \<Rightarrow> size - intStart
                          | Some l \<Rightarrow> min (max l 0) (size - intStart))
      in if resultLength \<le> 0 then [] else take (nat resultLength) (drop (nat intStart) s))"

section \<open>Regular expressions\<close>

text \<open>
  The three regular expressions of the program use single-character matchers (a literal
  or a class), greedy \<open>+\<close> on a single-character matcher, sequence, alternation and the
  end assertion \<open>$\<close>. A class is the list of its ranges, a single member \<open>c\<close> being
  the range from \<open>c\<close> to \<open>c\<close>: \<open>[a-z0-9-]\<close> is \<open>[(a, z), (0, 9), (-, -)]\<close>.
\<close>

datatype atom = Lit char | Cls "(char \<times> char) list"

datatype regex =
    Atom atom
  | Plus atom
  | Seq regex regex
  | Alt regex regex
  | Eos

definition in_class :: "(char \<times> char) list \<Rightarrow> char \<Rightarrow> bool" where
  "in_class rs c = list_ex (in_range c) rs"

text \<open>
  With the \<open>i\<close> flag a character matches a literal when their canonical (upper case)
  forms agree, and it matches a class when the class has a member with the same
  canonical form: the character itself, its upper case or its lower case form.
\<close>

fun amatch :: "bool \<Rightarrow> atom \<Rightarrow> char \<Rightarrow> bool" where
  "amatch ic (Lit l) c = (if ic then upper_char l = upper_char c else l = c)"
| "amatch ic (Cls rs) c =
     (if ic then in_class rs c \<or> in_class rs (upper_char c) \<or> in_class rs (lower_char c)
      else in_class rs c)"

text \<open>
  Backtracking matcher: \<open>rmatch ic r s\<close> lists what is left of \<open>s\<close> after each way of
  matching \<open>r\<close> at its start, in the order in which a backtracking engine tries them
  (longest first for the greedy \<open>+\<close>, left alternative first).
\<close>

fun plus_match :: "bool \<Rightarrow> atom \<Rightarrow> string \<Rightarrow> string list" where
  "plus_match ic a [] = []"
| "plus_match ic a (c # cs) = (if amatch ic a c then plus_match ic a cs @ [cs] else [])"

fun rmatch :: "bool \<Rightarrow> regex \<Rightarrow> string \<Rightarrow> string list" where
  "rmatch ic (Atom a) s = (case s of [] \<Rightarrow> [] | c # cs \<Rightarrow> if amatch ic a c then [cs] else [])"
| "rmatch ic (Plus a) s = plus_match ic a s"
| "rmatch ic (Seq r1 r2) s = concat (map (rmatch ic r2) (rmatch ic r1 s))"
| "rmatch ic (Alt r1 r2) s = rmatch ic r1 s @ rmatch ic r2 s"
| "rmatch ic Eos s = (if s = [] then [[]] else [])"

text \<open>
  \<open>/^r/.test(s)\<close>: the pattern is anchored at the start of the string by \<open>^\<close>, so
  only the first position is tried.
\<close>

definition test_anchored :: "bool \<Rightarrow> regex \<Rightarrow> string \<Rightarrow> bool" where
  "test_anchored ic r s = (rmatch ic r s \<noteq> [])"

text \<open>
  \<open>/(g)rest/.exec(s)\<close> for a pattern that is a capture group followed by the rest.
  \<open>match_here\<close> matches at the start of \<open>s\<close>: the ways of matching the group are tried
  in order, the first one after which the rest matches decides (\<open>first_ok\<close>), and the
  group's text is returned. \<open>exec_group1\<close> tries the start positions from left to
  right; \<open>None\<close> is the \<open>null\<close> of no match.
\<close>

fun first_ok :: "bool \<Rightarrow> regex \<Rightarrow> string list \<Rightarrow> string option" where
  "first_ok ic rest [] = None"
| "first_ok ic rest (s' # ss) = (if rmatch ic rest s' \<noteq> [] then Some s' else first_ok ic rest ss)"

definition match_here :: "bool \<Rightarrow> regex \<Rightarrow> regex \<Rightarrow> string \<Rightarrow> string option" where
  "match_here ic g rest s =
     (case first_ok ic rest (rmatch ic g s) of
        None \<Rightarrow> None
      | Some s' \<Rightarrow> Some (take (length s - length s') s))"

fun exec_group1 :: "bool \<Rightarrow> regex \<Rightarrow> regex \<Rightarrow> string \<Rightarrow> string option" where
  "exec_group1 ic g rest [] = match_here ic g rest []"
| "exec_group1 ic g rest (c # cs) =
     (case match_here ic g rest (c # cs) of
        Some m \<Rightarrow> Some m
      | None \<Rightarrow> exec_group1 ic g rest cs)"

text \<open>\<open>\w\<close> is \<open>[A-Za-z0-9_]\<close>.\<close>

definition word_chars :: "(char \<times> char) list" where
  "word_chars = [(CHR ''A'', CHR ''Z''), (CHR ''a'', CHR ''z''), (CHR ''0'', CHR ''9''),
     (CHR ''_'', CHR ''_'')]"

text \<open>A run of literal characters, followed by the regular expression \<open>k\<close>.\<close>

definition lits :: "string \<Rightarrow> regex \<Rightarrow> regex" where
  "lits s k = foldr (\<lambda>c r. Seq (Atom (Lit c)) r) s k"

text \<open>\<open>(?:\/|:|$)\<close>\<close>

definition host_end :: regex where
  "host_end = Alt (Atom (Lit CHR ''/'')) (Alt (Atom (Lit CHR '':'')) Eos)"

text \<open>\<open>/([a-z0-9-]+)\.\w+\.amazonaws\.com(?:\/|:|$)/i\<close>: the group, then the rest.\<close>

definition region_group :: regex where
  "region_group =
     Plus (Cls [(CHR ''a'', CHR ''z''), (CHR ''0'', CHR ''9''), (CHR ''-'', CHR ''-'')])"

definition region_rest :: regex where
  "region_rest =
     Seq (Atom (Lit CHR ''.'')) (Seq (Plus (Cls word_chars))
       (lits ''.amazonaws.com'' host_end))"

text \<open>\<open>/(\w+)\.amazonaws\.com(?:\/|:|$)/i\<close>\<close>

definition service_group :: regex where
  "service_group = Plus (Cls word_chars)"

definition service_rest :: regex where
  "service_rest = lits ''.amazonaws.com'' host_end"

section \<open>Errors and responses\<close>

record metadata =
  statusCode :: int
  statusMessage :: string
  headers :: "(string \<times> string) list"
  body :: string

text \<open>
  A JavaScript error object: the name of its class and its \<open>response\<close> property
  (\<open>None\<close> when the property is absent).
\<close>

record js_error =
  err_name :: string
  response :: "metadata option"

text \<open>The \<open>TypeError\<close> the engine throws on \<open>null[1]\<close> or \<open>undefined.toUpperCase()\<close>.\<close>

definition TypeError :: js_error where
  "TypeError = \<lparr>err_name = ''TypeError'', response = None\<rparr>"

section \<open>Region and service\<close>

text \<open>
  \<^verbatim>\<open>
  region = argv.region
  if (region == null) {
    region = /([a-z0-9-]+)\.\w+\.amazonaws\.com(?:\/|:|$)/i.exec(url)[1]
  }
  service = argv.service
  if (service == null) {
    service = /(\w+)\.amazonaws\.com(?:\/|:|$)/i.exec(url)[1]
  }
  \<close>
  The option is \<open>None\<close> for the default \<open>null\<close>. \<open>exec\<close> gives \<open>null\<close> when the pattern
  matches nowhere, and indexing \<open>null\<close> throws a \<open>TypeError\<close>.
\<close>

definition resolve_region :: "string option \<Rightarrow> string \<Rightarrow> js_error + string" where
  "resolve_region region_opt url =
     (case region_opt of
        Some region \<Rightarrow> Inr region
      | None \<Rightarrow> (case exec_group1 True region_group region_rest url of
                   None \<Rightarrow> Inl TypeError
                 | Some m \<Rightarrow> Inr m))"

definition resolve_service :: "string option \<Rightarrow> string \<Rightarrow> js_error + string" where
  "resolve_service service_opt url =
     (case service_opt of
        Some service \<Rightarrow> Inr service
      | None \<Rightarrow> (case exec_group1 True service_group service_rest url of
                   None \<Rightarrow> Inl TypeError
                 | Some m \<Rightarrow> Inr m))"

section \<open>Objects\<close>

text \<open>
  A plain object with string values is the list of its own properties, in the order in
  which they were created (the enumeration order of keys that look like array indices
  is not modelled; nothing below depends on the order). \<open>obj[k] = v\<close> replaces the
  value of an existing key and appends a new one. The key \<open>__proto__\<close> is the accessor
  inherited from \<open>Object.prototype\<close>, whose setter ignores a string: the assignment
  creates no property.
\<close>

type_synonym obj = "(string \<times> string) list"

fun put :: "string \<Rightarrow> string \<Rightarrow> obj \<Rightarrow> obj" where
  "put k v [] = [(k, v)]"
| "put k v (p # ps) = (if fst p = k then (k, v) # ps else p # put k v ps)"

definition js_set :: "string \<Rightarrow> string \<Rightarrow> obj \<Rightarrow> obj" where
  "js_set k v ob = (if k = ''__proto__'' then ob else put k v ob)"

text \<open>\<open>Object.assign(target, s1, s2, ...)\<close> assigns the properties of each source in turn.\<close>

fun assign_from :: "obj \<Rightarrow> obj \<Rightarrow> obj" where
  "assign_from [] target = target"
| "assign_from (p # ps) target = assign_from ps (js_set (fst p) (snd p) target)"

fun object_assign :: "obj \<Rightarrow> obj list \<Rightarrow> obj" where
  "object_assign target [] = target"
| "object_assign target (src # srcs) = object_assign (assign_from src target) srcs"

text \<open>
  \<open>lowercaseKeys(obj)\<close> of the package \<open>lowercase-keys\<close>: a new object, each key of
  \<open>obj\<close> assigned in lower case.
\<close>

fun lowercase_into :: "obj \<Rightarrow> obj \<Rightarrow> obj" where
  "lowercase_into [] ret = ret"
| "lowercase_into (p # ps) ret = lowercase_into ps (js_set (toLowerCase (fst p)) (snd p) ret)"

definition lowercaseKeys :: "obj \<Rightarrow> obj" where
  "lowercaseKeys ob = lowercase_into ob []"

section \<open>Command line arguments\<close>

text \<open>
  The options yargs hands over: the positional arguments \<open>argv._\<close> (at least one,
  by \<open>demand(1)\<close>) and the options with their default \<open>null\<close> as \<open>None\<close>.

  yargs hands a positional argument over as a string, unless it looks like a number
  (\<open>42\<close>, \<open>007\<close>, \<open>1e3\<close>, \<open>0x1F\<close>): then it is a Number. \<open>Num t\<close> is a Number whose
  conversion to a string (\<open>ToString\<close>) gives \<open>t\<close>: \<open>Num ''7''\<close> for the argument \<open>007\<close>.
  A Number has none of the methods \<open>toUpperCase\<close>, \<open>indexOf\<close> and \<open>substr\<close>, so calling
  one of them throws a \<open>TypeError\<close>.
\<close>

datatype arg = Str string | Num string

fun arg_text :: "arg \<Rightarrow> string" where
  "arg_text (Str s) = s"
| "arg_text (Num t) = t"

record argv =
  positional :: "arg list"
  opt_print :: string
  opt_pretty :: string
  opt_region :: "string option"
  opt_profile :: "string option"
  opt_service :: "string option"

text \<open>\<open>/^\w+$/\<close>, tried at the start of the string only.\<close>

definition word_re :: regex where
  "word_re = Seq (Plus (Cls word_chars)) Eos"

text \<open>
  \<^verbatim>\<open>
  if (/^\w+$/.test(args[0])) {
    method = args.shift().toUpperCase()
    url = args.shift()
  } else {
    url = args.shift()
    method = 'GET'
  }
  \<close>
  The result is the method, the URL (\<open>None\<close> for \<open>undefined\<close>, when no argument is left)
  and the remaining arguments. \<open>test\<close> converts its argument to a string. With no
  argument at all \<open>args[0]\<close> is \<open>undefined\<close>, the test reads it as the word \<open>undefined\<close>
  and \<open>undefined.toUpperCase()\<close> throws; with a Number whose text is a word,
  \<open>toUpperCase\<close> is missing and the call throws as well.
\<close>

fun parse_method_url :: "arg list \<Rightarrow> js_error + (string \<times> arg option \<times> arg list)" where
  "parse_method_url [] = Inl TypeError"
| "parse_method_url (a # args) =
     (if test_anchored False word_re (arg_text a)
      then (case a of
              Num t \<Rightarrow> Inl TypeError
            | Str s \<Rightarrow>
                (case args of
                   [] \<Rightarrow> Inr (toUpperCase s, None, [])
                 | u # args' \<Rightarrow> Inr (toUpperCase s, Some u, args')))
      else Inr (''GET'', Some a, args))"

text \<open>
  \<^verbatim>\<open>
  const headers = {}
  while (args.length > 0) {
    const arg = args.shift()
    const pos = arg.indexOf(':')
    headers[arg.substr(0, pos).toLowerCase()] = arg.substr(pos + 1)
  }
  \<close>
  For a Number \<open>arg.indexOf\<close> throws, and the loop ends with that exception.
\<close>

definition header_name :: "string \<Rightarrow> string" where
  "header_name arg = (let pos = indexOf arg CHR '':'' in toLowerCase (substr arg 0 (Some pos)))"

definition header_value :: "string \<Rightarrow> string" where
  "header_value arg = (let pos = indexOf arg CHR '':'' in substr arg (pos + 1) None)"

fun header_loop :: "arg list \<Rightarrow> obj \<Rightarrow> js_error + obj" where
  "header_loop [] hs = Inr hs"
| "header_loop (Str arg # args) hs =
     header_loop args (js_set (header_name arg) (header_value arg) hs)"
| "header_loop (Num t # args) hs = Inl TypeError"

definition parse_headers :: "arg list \<Rightarrow> js_error + obj" where
  "parse_headers args = header_loop args []"

section \<open>The request\<close>

text \<open>\<open>package.json\<close>: name, version and repository.\<close>

definition pkg_name :: string where
  "pkg_name = ''http-aws4''"

definition pkg_version :: string where
  "pkg_version = ''0.7.0''"

definition pkg_repository :: string where
  "pkg_repository = ''timdp/http-aws4''"

definition USER_AGENT :: string where
  "USER_AGENT = pkg_name @ ''/'' @ pkg_version @ '' (https://github.com/'' @ pkg_repository @ '')''"

record endpoint =
  ep_host :: string
  ep_href :: string

record request =
  req_region :: string
  req_method :: string
  req_body :: string
  req_endpoint :: endpoint
  req_headers :: obj

record credentials =
  accessKeyId :: string
  secretAccessKey :: string
  sessionToken :: "string option"

text \<open>
  What the program uses of the AWS SDK: \<open>new AWS.Endpoint(url)\<close>, which may throw; the
  headers a new \<open>AWS.HttpRequest\<close> starts with; and the signer
  \<open>new AWS.Signers.V4(request, service).addAuthorization(credentials, new Date())\<close>, which
  changes the request or throws.
\<close>

record sdk =
  Endpoint :: "string \<Rightarrow> js_error + endpoint"
  HttpRequest_headers :: obj
  addAuthorization :: "request \<Rightarrow> string \<Rightarrow> credentials \<Rightarrow> js_error + request"

text \<open>
  \<^verbatim>\<open>
  request.headers = Object.assign(
    lowercaseKeys(request.headers),
    {'user-agent': USER_AGENT},
    headers,
    {host: endpoint.host})
  \<close>
\<close>

definition request_headers :: "obj \<Rightarrow> obj \<Rightarrow> endpoint \<Rightarrow> obj" where
  "request_headers defaults hs ep =
     object_assign (lowercaseKeys defaults)
       [[(''user-agent'', USER_AGENT)], hs, [(''host'', ep_host ep)]]"

text \<open>\<open>createRequest\<close> up to the signer: the request that is handed to it.\<close>

definition unsigned_request ::
  "obj \<Rightarrow> string \<Rightarrow> obj \<Rightarrow> string \<Rightarrow> endpoint \<Rightarrow> string \<Rightarrow> request" where
  "unsigned_request defaults region hs method ep payload =
     \<lparr>req_region = region, req_method = method, req_body = payload, req_endpoint = ep,
      req_headers = request_headers defaults hs ep\<rparr>"

definition createRequest ::
  "sdk \<Rightarrow> string \<Rightarrow> string \<Rightarrow> obj \<Rightarrow> string \<Rightarrow> string \<Rightarrow> string \<Rightarrow> credentials
     \<Rightarrow> js_error + request" where
  "createRequest sd region service hs method url payload creds =
     (case Endpoint sd url of
        Inl e \<Rightarrow> Inl e
      | Inr ep \<Rightarrow>
          addAuthorization sd
            (unsigned_request (HttpRequest_headers sd) region hs method ep payload) service creds)"

section \<open>Dispatch and response\<close>

text \<open>
  What the program does to the outside: the request and the body echoed by
  \<open>handleRequest\<close>, the request given to the transport (\<open>client.handleRequest\<close>), the
  response displayed by \<open>formatResponse(resp, type)\<close>, the stack logged by
  \<open>logger.error\<close>, and \<open>process.exit\<close>.
\<close>

datatype effect =
    EchoRequest request
  | EchoBody string
  | Send request
  | Display metadata string
  | LogError js_error
  | Exit int

text \<open>
  \<^verbatim>\<open>
  if (~argv.print.indexOf('H')) { ... }
  if (~argv.print.indexOf('B')) { ... }
  client.handleRequest(request, null, resolve, reject)
  \<close>
\<close>

definition handleRequest :: "string \<Rightarrow> request \<Rightarrow> string \<Rightarrow> effect list" where
  "handleRequest print req payload =
     (if indexOf print CHR ''H'' \<noteq> - 1 then [EchoRequest req] else []) @
     (if indexOf print CHR ''B'' \<noteq> - 1 then [EchoBody payload] else []) @
     [Send req]"

text \<open>The response of the transport: status and headers, and the events of its stream.\<close>

record incoming =
  in_statusCode :: int
  in_statusMessage :: string
  in_headers :: obj

datatype event = Data string | End | ErrorEvent js_error

text \<open>
  \<open>handleResponse\<close>: \<open>data\<close> appends to the body; \<open>end\<close> rejects with a new \<open>Error\<close>
  carrying the metadata when the status is below 200 or at least 300, and resolves with
  the metadata otherwise; \<open>error\<close> rejects with the stream's error. The first settlement
  of the promise counts; \<open>None\<close> is a promise that never settles.
\<close>

fun on_events :: "metadata \<Rightarrow> event list \<Rightarrow> (js_error + metadata) option" where
  "on_events m [] = None"
| "on_events m (Data d # es) = on_events (m\<lparr>body := body m @ d\<rparr>) es"
| "on_events m (End # es) =
     Some (if statusCode m < 200 \<or> statusCode m \<ge> 300
           then Inl \<lparr>err_name = ''Error'', response = Some m\<rparr>
           else Inr m)"
| "on_events m (ErrorEvent e # es) = Some (Inl e)"

definition handleResponse :: "incoming \<Rightarrow> event list \<Rightarrow> (js_error + metadata) option" where
  "handleResponse r es =
     on_events \<lparr>statusCode = in_statusCode r, statusMessage = in_statusMessage r,
                headers = in_headers r, body = []\<rparr> es"

text \<open>
  \<^verbatim>\<open>
  const handleError = (err) => {
    if (err.response != null) {
      formatResponse(err.response, 'error')
    } else {
      logger.error(cleanStack(err.stack))
    }
    process.exit(1)
  }
  \<close>
\<close>

definition handleError :: "js_error \<Rightarrow> effect list" where
  "handleError err =
     (case response err of
        Some r \<Rightarrow> [Display r ''error'']
      | None \<Rightarrow> [LogError err]) @ [Exit 1]"

section \<open>The program\<close>

text \<open>
  The collaborators of one run: \<open>normalizeUrl\<close> (which is given the URL argument as
  it is, a string, a Number or \<open>undefined\<close>), the SDK, the standard input, the two
  sources of credentials and the transport, which answers a request with an error or
  with a response and its events.
\<close>

record env =
  normalizeUrl :: "arg option \<Rightarrow> js_error + string"
  aws :: sdk
  getStdin :: "js_error + string"
  SharedIniFileCredentials :: "string \<Rightarrow> credentials"
  config_getCredentials :: "js_error + credentials"
  transport :: "request \<Rightarrow> js_error + incoming \<times> event list"

text \<open>
  \<^verbatim>\<open>
  const getCredentials = (argv.profile) ?
    () => Promise.resolve(new AWS.SharedIniFileCredentials({ profile: argv.profile })) :
    pify(config.getCredentials).bind(config)
  \<close>
  A profile that is \<open>null\<close> or empty is falsy.
\<close>

definition getCredentials :: "env \<Rightarrow> argv \<Rightarrow> js_error + credentials" where
  "getCredentials en av =
     (case opt_profile av of
        None \<Rightarrow> config_getCredentials en
      | Some p \<Rightarrow> if p = [] then config_getCredentials en else Inr (SharedIniFileCredentials en p))"

text \<open>
  \<open>Promise.all\<close> of two promises. When both reject, the program reports the one that
  rejects first in time; the model reports the first of the array.
\<close>

definition promise_all :: "js_error + 'a \<Rightarrow> js_error + 'b \<Rightarrow> js_error + 'a \<times> 'b" where
  "promise_all a b =
     (case a of
        Inl e \<Rightarrow> Inl e
      | Inr x \<Rightarrow> (case b of Inl e \<Rightarrow> Inl e | Inr y \<Rightarrow> Inr (x, y)))"

text \<open>
  \<^verbatim>\<open>
  Promise.all([getStdin(), getCredentials()])
    .then(([body, credentials]) => {
      const request = createRequest(method, url, body, credentials)
      return handleRequest(request, body)
    })
    .then(handleResponse)
    .then(formatResponse)
    .catch(handleError)
  \<close>
\<close>

definition promise_chain ::
  "env \<Rightarrow> argv \<Rightarrow> string \<Rightarrow> string \<Rightarrow> obj \<Rightarrow> string \<Rightarrow> string \<Rightarrow> effect list" where
  "promise_chain en av region service hs method url =
     (case promise_all (getStdin en) (getCredentials en av) of
        Inl e \<Rightarrow> handleError e
      | Inr (payload, creds) \<Rightarrow>
          (case createRequest (aws en) region service hs method url payload creds of
             Inl e \<Rightarrow> handleError e
           | Inr req \<Rightarrow>
               handleRequest (opt_print av) req payload @
               (case transport en req of
                  Inl e \<Rightarrow> handleError e
                | Inr (r, es) \<Rightarrow>
                    (case handleResponse r es of
                       None \<Rightarrow> []
                     | Some (Inl e) \<Rightarrow> handleError e
                     | Some (Inr m) \<Rightarrow> [Display m ''info'']))))"

text \<open>
  The whole script: method and URL, normalisation, region, service, the header
  arguments, then the promise chain. An exception of the statements before the promise
  chain is not caught: the process ends with it (\<open>Uncaught\<close>).
\<close>

datatype outcome = Uncaught js_error | Effects "effect list"

definition main :: "env \<Rightarrow> argv \<Rightarrow> outcome" where
  "main en av =
     (case parse_method_url (positional av) of
        Inl e \<Rightarrow> Uncaught e
      | Inr (method, url, args) \<Rightarrow>
          (case normalizeUrl en url of
             Inl e \<Rightarrow> Uncaught e
           | Inr url' \<Rightarrow>
               (case resolve_region (opt_region av) url' of
                  Inl e \<Rightarrow> Uncaught e
                | Inr region \<Rightarrow>
                    (case resolve_service (opt_service av) url' of
                       Inl e \<Rightarrow> Uncaught e
                     | Inr service \<Rightarrow>
                         (case parse_headers args of
                            Inl e \<Rightarrow> Uncaught e
                          | Inr hs \<Rightarrow>
                              Effects (promise_chain en av region service hs method url'))))))"

text \<open>The requests given to the transport in a run.\<close>

fun sends :: "effect list \<Rightarrow> request list" where
  "sends [] = []"
| "sends (Send r # es) = r # sends es"
| "sends (_ # es) = sends es"

fun sent :: "outcome \<Rightarrow> request list" where
  "sent (Uncaught e) = []"
| "sent (Effects es) = sends es"

section \<open>Notions used to state the properties\<close>

text \<open>
  The assignments to the header mapping of a request, in the order in which the program
  performs them: the defaults of the SDK with their keys in lower case, the user agent,
  the header arguments in their order, the host of the endpoint.
\<close>

definition header_assignments :: "obj \<Rightarrow> arg list \<Rightarrow> endpoint \<Rightarrow> obj" where
  "header_assignments defaults args ep =
     map (\<lambda>p. (toLowerCase (fst p), snd p)) defaults @ [(''user-agent'', USER_AGENT)] @
     map (\<lambda>a. (header_name (arg_text a), header_value (arg_text a))) args @
     [(''host'', ep_host ep)]"

text \<open>
  What the two patterns describe, in words. \<open>host_end_ok post\<close>: \<open>post\<close> is empty or
  begins with \<open>/\<close> or \<open>:\<close>. \<open>region_match url m\<close>: somewhere in the URL stands \<open>m\<close>, a
  non-empty run of letters, digits and hyphens, followed by a dot, a non-empty run of
  word characters, \<open>.amazonaws.com\<close> in any letter case and then \<open>/\<close>, \<open>:\<close> or the end.
\<close>

definition host_end_ok :: "string \<Rightarrow> bool" where
  "host_end_ok post = (case post of [] \<Rightarrow> True | c # _ \<Rightarrow> c = CHR ''/'' \<or> c = CHR '':'')"

definition region_match :: "string \<Rightarrow> string \<Rightarrow> bool" where
  "region_match url m \<longleftrightarrow>
     (\<exists>pre w dom post. url = pre @ m @ CHR ''.'' # w @ dom @ post \<and> m \<noteq> []
        \<and> list_all (in_class [(CHR ''a'', CHR ''z''), (CHR ''A'', CHR ''Z''),
              (CHR ''0'', CHR ''9''), (CHR ''-'', CHR ''-'')]) m
        \<and> w \<noteq> [] \<and> list_all (in_class word_chars) w
        \<and> toUpperCase dom = ''.AMAZONAWS.COM'' \<and> host_end_ok post)"

text \<open>
  Where the service pattern matches. \<open>service_at url pre m\<close>: the URL is \<open>pre\<close>, then
  \<open>m\<close>, a non-empty run of word characters, then \<open>.amazonaws.com\<close> in any letter case,
  and then \<open>/\<close>, \<open>:\<close> or nothing comes next. \<open>leftmost_service url m\<close>: \<open>m\<close> stands so
  at the leftmost place of the URL at which any run stands so. \<open>maximal_word_run url m\<close>:
  somewhere in the URL stands \<open>m\<close>, a non-empty run of word characters, with no word
  character directly before it and a dot directly behind it.
\<close>

definition service_at :: "string \<Rightarrow> string \<Rightarrow> string \<Rightarrow> bool" where
  "service_at url pre m \<longleftrightarrow>
     (\<exists>dom post. url = pre @ m @ dom @ post \<and> m \<noteq> [] \<and> list_all (in_class word_chars) m
        \<and> toUpperCase dom = ''.AMAZONAWS.COM'' \<and> host_end_ok post)"

definition leftmost_service :: "string \<Rightarrow> string \<Rightarrow> bool" where
  "leftmost_service url m \<longleftrightarrow>
     (\<exists>pre. service_at url pre m \<and>
        (\<forall>pre' m'. length pre' < length pre \<longrightarrow> \<not> service_at url pre' m'))"

definition maximal_word_run :: "string \<Rightarrow> string \<Rightarrow> bool" where
  "maximal_word_run url m \<longleftrightarrow>
     (\<exists>pre post. url = pre @ m @ CHR ''.'' # post \<and> m \<noteq> [] \<and> list_all (in_class word_chars) m
        \<and> (pre = [] \<or> \<not> in_class word_chars (last pre)))"

section \<open>Characters and strings\<close>

lemma of_char_upper:
  "(of_char (upper_char c) :: nat) =
     (if in_range c (CHR ''a'', CHR ''z'') then of_char c - 32 else of_char c)"
  by (cases c) (auto simp: upper_char_def in_range_def)

lemma of_char_lower:
  "(of_char (lower_char c) :: nat) =
     (if in_range c (CHR ''A'', CHR ''Z'') then of_char c + 32 else of_char c)"
  by (cases c) (auto simp: lower_char_def in_range_def)

lemma lower_char_idem: "lower_char (lower_char c) = lower_char c"
  by (rule of_char_eqI [where ?'a = nat]) (auto simp add: of_char_lower in_range_def)

lemma upper_char_idem: "upper_char (upper_char c) = upper_char c"
  by (rule of_char_eqI [where ?'a = nat]) (auto simp add: of_char_upper in_range_def)

text \<open>
  The class matcher of \<open>amatch\<close> under the \<open>i\<close> flag is the one of the language
  definition: some member of the class has the canonical form of the character.
\<close>

lemma upper_char_eq_cases:
  assumes "upper_char a = upper_char c"
  shows "a = c \<or> a = upper_char c \<or> a = lower_char c"
proof -
  define x where "x = (of_char a :: nat)"
  define y where "y = (of_char c :: nat)"
  have ua: "(of_char (upper_char a) :: nat) = (if 97 \<le> x \<and> x \<le> 122 then x - 32 else x)"
    by (simp add: of_char_upper in_range_def x_def)
  have uc: "(of_char (upper_char c) :: nat) = (if 97 \<le> y \<and> y \<le> 122 then y - 32 else y)"
    by (simp add: of_char_upper in_range_def y_def)
  have lc: "(of_char (lower_char c) :: nat) = (if 65 \<le> y \<and> y \<le> 90 then y + 32 else y)"
    by (simp add: of_char_lower in_range_def y_def)
  from assms have "(of_char (upper_char a) :: nat) = of_char (upper_char c)" by simp
  with ua uc lc have "x = y \<or> x = of_char (upper_char c) \<or> x = of_char (lower_char c)"
    by (simp split: if_splits) arith+
  then show ?thesis unfolding x_def y_def by (simp only: of_char_eq_iff)
qed

lemma upper_lower_char: "upper_char (lower_char c) = upper_char c"
  by (rule of_char_eqI [where ?'a = nat]) (auto simp add: of_char_upper of_char_lower in_range_def)

lemma amatch_class_canonical:
  "amatch True (Cls rs) c \<longleftrightarrow> (\<exists>a. in_class rs a \<and> upper_char a = upper_char c)"
proof
  assume "amatch True (Cls rs) c"
  then consider "in_class rs c" | "in_class rs (upper_char c)" | "in_class rs (lower_char c)"
    by auto
  then show "\<exists>a. in_class rs a \<and> upper_char a = upper_char c"
  proof cases
    case 1
    then show ?thesis by blast
  next
    case 2
    then have "in_class rs (upper_char c) \<and> upper_char (upper_char c) = upper_char c"
      by (simp add: upper_char_idem)
    then show ?thesis by blast
  next
    case 3
    then have "in_class rs (lower_char c) \<and> upper_char (lower_char c) = upper_char c"
      by (simp add: upper_lower_char)
    then show ?thesis by blast
  qed
next
  assume "\<exists>a. in_class rs a \<and> upper_char a = upper_char c"
  then obtain a where a: "in_class rs a" "upper_char a = upper_char c" by blast
  from upper_char_eq_cases [OF a(2)] a(1) show "amatch True (Cls rs) c" by auto
qed

lemma of_char_lower_unit:
  "(of_char (lower_unit c) :: nat) =
     (if in_range c (CHR ''A'', CHR ''Z'') \<or> in_range c (CHR 0xC0, CHR 0xD6)
         \<or> in_range c (CHR 0xD8, CHR 0xDE)
      then of_char c + 32 else of_char c)"
  by (cases c) (auto simp: lower_unit_def in_range_def)

lemma lower_unit_idem: "lower_unit (lower_unit c) = lower_unit c"
  by (rule of_char_eqI [where ?'a = nat]) (auto simp add: of_char_lower_unit in_range_def)

lemma toLowerCase_idem: "toLowerCase (toLowerCase s) = toLowerCase s"
  by (simp add: toLowerCase_def lower_unit_idem)

lemma toUpperCase_idem: "toUpperCase (toUpperCase s) = toUpperCase s"
  by (simp add: toUpperCase_def upper_char_idem)

lemma amatch_word_ci: "amatch True (Cls word_chars) c = in_class word_chars c"
  by (auto simp: in_class_def word_chars_def in_range_def of_char_upper of_char_lower
      split: if_splits)

lemma upper_char_word:
  "in_class word_chars c \<Longrightarrow>
   in_class [(CHR ''A'', CHR ''Z''), (CHR ''0'', CHR ''9''), (CHR ''_'', CHR ''_'')] (upper_char c)"
  by (auto simp: in_class_def word_chars_def in_range_def of_char_upper)

lemma indexOf_absent: "c \<notin> set s \<Longrightarrow> indexOf s c = - 1"
  by (simp add: indexOf_def)

lemma indexOf_first:
  assumes "c \<notin> set p"
  shows "indexOf (p @ c # s) c = int (length p)"
proof -
  have "takeWhile (\<lambda>x. x \<noteq> c) (p @ c # s) = p @ takeWhile (\<lambda>x. x \<noteq> c) (c # s)"
    using assms by (intro takeWhile_append2) auto
  then show ?thesis by (simp add: indexOf_def)
qed

lemma substr_whole: "substr s 0 None = s"
  by (simp add: substr_def Let_def)

lemma substr_negative_length: "l < 0 \<Longrightarrow> substr s 0 (Some l) = []"
  by (simp add: substr_def Let_def)

lemma substr_prefix: "substr (p @ s) 0 (Some (int (length p))) = p"
  by (simp add: substr_def Let_def)

lemma substr_suffix: "substr (p @ c # s) (int (length p) + 1) None = s"
proof -
  have "nat (int (length p) + 1) = Suc (length p)" by simp
  then show ?thesis
    by (cases s) (simp_all add: substr_def Let_def)
qed

lemma header_no_colon:
  "CHR '':'' \<notin> set arg \<Longrightarrow> header_name arg = [] \<and> header_value arg = arg"
  by (simp add: header_name_def header_value_def indexOf_absent substr_negative_length
      substr_whole toLowerCase_def)

lemma header_colon:
  "CHR '':'' \<notin> set n \<Longrightarrow>
   header_name (n @ CHR '':'' # v) = toLowerCase n \<and> header_value (n @ CHR '':'' # v) = v"
  by (simp add: header_name_def header_value_def indexOf_first substr_prefix substr_suffix)

section \<open>The regular expression matcher\<close>

lemma plus_match_set:
  "set (plus_match ic a s) = {r. \<exists>p. s = p @ r \<and> p \<noteq> [] \<and> list_all (amatch ic a) p}"
proof (induction s)
  case Nil
  then show ?case by simp
next
  case (Cons c cs)
  show ?case
  proof (cases "amatch ic a c")
    case True
    have "{r. \<exists>p. c # cs = p @ r \<and> p \<noteq> [] \<and> list_all (amatch ic a) p} =
          insert cs {r. \<exists>p. cs = p @ r \<and> p \<noteq> [] \<and> list_all (amatch ic a) p}"
      (is "?L = insert cs ?R")
    proof (intro set_eqI iffI)
      fix r assume "r \<in> ?L"
      then obtain p where p: "c # cs = p @ r" "p \<noteq> []" "list_all (amatch ic a) p" by blast
      then obtain q where q: "p = c # q" "cs = q @ r" by (cases p) auto
      show "r \<in> insert cs ?R"
      proof (cases "q = []")
        case True
        with q show ?thesis by simp
      next
        case False
        with p q show ?thesis by auto
      qed
    next
      fix r assume "r \<in> insert cs ?R"
      then consider "r = cs" | p where "cs = p @ r" "p \<noteq> []" "list_all (amatch ic a) p"
        by blast
      then show "r \<in> ?L"
      proof cases
        case 1
        with True have "c # cs = [c] @ r \<and> [c] \<noteq> [] \<and> list_all (amatch ic a) [c]" by simp
        then show ?thesis by blast
      next
        case 2
        with True have "c # cs = (c # p) @ r \<and> c # p \<noteq> [] \<and> list_all (amatch ic a) (c # p)"
          by simp
        then show ?thesis by blast
      qed
    qed
    with True Cons.IH show ?thesis by simp
  next
    case False
    have "\<And>p r. c # cs = p @ r \<Longrightarrow> p \<noteq> [] \<Longrightarrow> \<not> list_all (amatch ic a) p"
      using False by (case_tac p) auto
    with False show ?thesis by auto
  qed
qed

lemma test_word_iff:
  "test_anchored False word_re s \<longleftrightarrow> s \<noteq> [] \<and> list_all (in_class word_chars) s"
proof -
  have "test_anchored False word_re s \<longleftrightarrow> [] \<in> set (plus_match False (Cls word_chars) s)"
    by (auto simp: test_anchored_def word_re_def)
  also have "\<dots> \<longleftrightarrow> s \<noteq> [] \<and> list_all (amatch False (Cls word_chars)) s"
    by (auto simp: plus_match_set)
  also have "amatch False (Cls word_chars) = in_class word_chars"
    by (rule ext) simp
  finally show ?thesis .
qed

section \<open>The method\<close>

text \<open>
  A first argument that is a string: when it is a word (one or more of
  \<open>A-Z a-z 0-9 _\<close>) the method is that argument in upper case, otherwise it is \<open>GET\<close>;
  in both cases upper-casing the method changes nothing and its characters are among
  \<open>A-Z 0-9 _\<close>.
\<close>

lemma method_of_string_argument:
  "\<exists>m url rest. parse_method_url (Str a # args) = Inr (m, url, rest)
           \<and> m = (if a \<noteq> [] \<and> list_all (in_class word_chars) a then toUpperCase a else ''GET'')
           \<and> toUpperCase m = m \<and> m \<noteq> []
           \<and> list_all (in_class [(CHR ''A'', CHR ''Z''), (CHR ''0'', CHR ''9''),
                  (CHR ''_'', CHR ''_'')]) m"
proof -
  let ?upper = "[(CHR ''A'', CHR ''Z''), (CHR ''0'', CHR ''9''), (CHR ''_'', CHR ''_'')]"
  show ?thesis
  proof (cases "test_anchored False word_re a")
    case True
    then have w: "a \<noteq> [] \<and> list_all (in_class word_chars) a" by (simp add: test_word_iff)
    then have up: "list_all (in_class ?upper) (toUpperCase a)"
      by (simp add: toUpperCase_def list_all_iff upper_char_word)
    from True obtain u r where pm: "parse_method_url (Str a # args) = Inr (toUpperCase a, u, r)"
      by (cases args) simp_all
    have m: "(if a \<noteq> [] \<and> list_all (in_class word_chars) a then toUpperCase a else ''GET'') =
        toUpperCase a"
      using w by simp
    have ne: "toUpperCase a \<noteq> []" using w by (simp add: toUpperCase_def)
    show ?thesis unfolding pm m using up ne by (simp add: toUpperCase_idem)
  next
    case False
    then have nw: "\<not> (a \<noteq> [] \<and> list_all (in_class word_chars) a)" by (simp add: test_word_iff)
    have pm: "parse_method_url (Str a # args) = Inr (''GET'', Some (Str a), args)"
      using False by simp
    have m: "(if a \<noteq> [] \<and> list_all (in_class word_chars) a then toUpperCase a else ''GET'') =
        ''GET''"
      using nw by auto
    have "toUpperCase ''GET'' = ''GET''"
      by (simp add: toUpperCase_def upper_char_def in_range_def)
    moreover have "list_all (in_class ?upper) ''GET''"
      by (simp add: in_class_def in_range_def)
    ultimately show ?thesis unfolding pm m by simp
  qed
qed

text \<open>
  A first argument that is a Number: when its text is a word, the method is never set,
  because line 73 throws; otherwise the method is \<open>GET\<close> and the Number is the URL.
\<close>

lemma method_of_number_argument:
  "parse_method_url (Num t # args) =
     (if t \<noteq> [] \<and> list_all (in_class word_chars) t then Inl TypeError
      else Inr (''GET'', Some (Num t), args))"
  by (simp add: test_word_iff)

text \<open>
  C8, at an input where the code breaks it. The claim: in every invocation the method
  of the request is an upper case token, the first positional argument in upper case
  when that is a word and \<open>GET\<close> otherwise. For the command line
  \<open>123 https://es.amazonaws.com/\<close> the first argument is the word \<open>123\<close>, handed over
  as a Number: the method is not \<open>123\<close>, the script throws a \<open>TypeError\<close> at line 73 and
  ends before any request is built.
\<close>

theorem numeric_first_argument_throws:
  "test_anchored False word_re (arg_text (Num ''123''))
   \<and> parse_method_url [Num ''123'', Str ''https://es.amazonaws.com/''] = Inl TypeError
   \<and> main en (av\<lparr>positional := [Num ''123'', Str ''https://es.amazonaws.com/'']\<rparr>) =
       Uncaught TypeError"
proof -
  have w: "test_anchored False word_re ''123''"
    by (simp add: test_word_iff in_class_def in_range_def word_chars_def)
  then show ?thesis by (simp add: main_def)
qed

section \<open>Objects and header mappings\<close>

lemma map_of_put: "map_of (put k v ob) = (map_of ob)(k \<mapsto> v)"
  by (induction ob) (auto simp: fun_eq_iff)

lemma keys_put: "fst ` set (put k v ob) = insert k (fst ` set ob)"
  by (induction ob) auto

lemma distinct_put: "distinct (map fst ob) \<Longrightarrow> distinct (map fst (put k v ob))"
proof (induction ob)
  case Nil
  then show ?case by simp
next
  case (Cons p ps)
  have "fst p \<noteq> k \<Longrightarrow> fst p \<notin> fst ` set (put k v ps)"
    using Cons.prems by (simp add: keys_put)
  with Cons show ?case by auto
qed

lemma keys_js_set: "fst ` set (js_set k v ob) \<subseteq> insert k (fst ` set ob)"
  by (auto simp: js_set_def keys_put)

lemma distinct_js_set: "distinct (map fst ob) \<Longrightarrow> distinct (map fst (js_set k v ob))"
  by (simp add: js_set_def distinct_put)

lemma map_of_js_set:
  "map_of (js_set k v ob) = (if k = ''__proto__'' then map_of ob else (map_of ob)(k \<mapsto> v))"
  by (simp add: js_set_def map_of_put)

lemma keys_assign_from: "fst ` set (assign_from src t) \<subseteq> fst ` set t \<union> fst ` set src"
proof (induction src arbitrary: t)
  case Nil
  then show ?case by simp
next
  case (Cons p ps)
  from Cons.IH [of "js_set (fst p) (snd p) t"] keys_js_set [of "fst p" "snd p" t]
  show ?case by auto
qed

lemma distinct_assign_from:
  "distinct (map fst t) \<Longrightarrow> distinct (map fst (assign_from src t))"
  by (induction src arbitrary: t) (simp_all add: distinct_js_set)

lemma map_of_assign_from:
  "map_of (assign_from src t) k =
     (if k = ''__proto__'' then map_of t k else (map_of t ++ map_of (rev src)) k)"
proof (induction src arbitrary: t)
  case Nil
  then show ?case by simp
next
  case (Cons p ps)
  show ?case
    by (cases "map_of (rev ps) k") (auto simp: Cons.IH map_of_js_set map_add_def)
qed

lemma map_of_rev_distinct: "distinct (map fst xs) \<Longrightarrow> map_of (rev xs) = map_of xs"
proof (induction xs)
  case Nil
  then show ?case by simp
next
  case (Cons p ps)
  then have "map_of ps (fst p) = None" by (simp add: map_of_eq_None_iff)
  with Cons show ?case by (auto simp: fun_eq_iff map_add_def split: option.splits)
qed

lemma lowercase_into_assign:
  "lowercase_into ob ret = assign_from (map (\<lambda>p. (toLowerCase (fst p), snd p)) ob) ret"
  by (induction ob arbitrary: ret) simp_all

lemma header_loop_Inr:
  "header_loop args hs = Inr hs' \<Longrightarrow>
   hs' = assign_from (map (\<lambda>a. (header_name (arg_text a), header_value (arg_text a))) args) hs"
  by (induction args hs rule: header_loop.induct) simp_all

lemma header_loop_strings:
  "header_loop (map Str ss) hs =
     Inr (assign_from (map (\<lambda>s. (header_name s, header_value s)) ss) hs)"
  by (induction ss arbitrary: hs) simp_all

lemma header_loop_number: "Num t \<in> set args \<Longrightarrow> header_loop args hs = Inl TypeError"
  by (induction args hs rule: header_loop.induct) auto

lemma parse_headers_Inr:
  "parse_headers args = Inr hs \<Longrightarrow>
   hs = assign_from (map (\<lambda>a. (header_name (arg_text a), header_value (arg_text a))) args) []"
  by (simp add: parse_headers_def header_loop_Inr)

lemma no_proto_assign_from:
  "map_of t ''__proto__'' = None \<Longrightarrow> map_of (assign_from src t) ''__proto__'' = None"
  by (simp add: map_of_assign_from)

lemma distinct_parse_headers: "parse_headers args = Inr hs \<Longrightarrow> distinct (map fst hs)"
  by (drule parse_headers_Inr) (simp add: distinct_assign_from)

lemma map_of_parse_headers:
  "parse_headers args = Inr hs \<Longrightarrow>
   map_of hs k =
     (if k = ''__proto__'' then None
      else map_of (rev (map (\<lambda>a. (header_name (arg_text a), header_value (arg_text a))) args)) k)"
  by (drule parse_headers_Inr) (simp add: map_of_assign_from)

lemma request_headers_assign:
  "request_headers d hs ep =
     assign_from [(''host'', ep_host ep)]
       (assign_from hs
          (assign_from [(''user-agent'', USER_AGENT)]
             (assign_from (map (\<lambda>p. (toLowerCase (fst p), snd p)) d) [])))"
  by (simp add: request_headers_def lowercaseKeys_def lowercase_into_assign)

lemma distinct_request_headers: "distinct (map fst (request_headers d hs ep))"
  by (simp add: request_headers_assign distinct_assign_from del: assign_from.simps)

lemma map_of_request_headers:
  assumes "parse_headers args = Inr hs"
  shows "map_of (request_headers d hs ep) k =
     (if k = ''__proto__'' then None else map_of (rev (header_assignments d args ep)) k)"
proof (cases "k = ''__proto__''")
  case True
  then show ?thesis
    by (simp add: request_headers_assign map_of_assign_from del: assign_from.simps)
next
  case False
  have "map_of (rev hs) k =
        map_of (rev (map (\<lambda>a. (header_name (arg_text a), header_value (arg_text a))) args)) k"
    using False assms
    by (simp add: map_of_rev_distinct distinct_parse_headers map_of_parse_headers)
  with False show ?thesis
    by (simp add: request_headers_assign header_assignments_def map_of_assign_from map_add_def
        del: assign_from.simps split: option.splits)
qed

lemma header_name_lowercase: "toLowerCase (header_name arg) = header_name arg"
  by (simp add: header_name_def Let_def toLowerCase_idem)

lemma user_agent_lowercase: "toLowerCase ''user-agent'' = ''user-agent''"
  by (simp add: toLowerCase_def lower_unit_def in_range_def)

lemma host_lowercase: "toLowerCase ''host'' = ''host''"
  by (simp add: toLowerCase_def lower_unit_def in_range_def)

lemma lowercase_assign_from:
  assumes "list_all (\<lambda>p. toLowerCase (fst p) = fst p) t"
    and "list_all (\<lambda>p. toLowerCase (fst p) = fst p) src"
  shows "list_all (\<lambda>p. toLowerCase (fst p) = fst p) (assign_from src t)"
proof -
  have "toLowerCase (fst p) = fst p" if "p \<in> set (assign_from src t)" for p
  proof -
    from that keys_assign_from [of src t] have "fst p \<in> fst ` (set t \<union> set src)"
      by blast
    then obtain q where "q \<in> set t \<union> set src" "fst p = fst q" by (rule imageE)
    with assms show ?thesis by (auto simp: list_all_iff)
  qed
  then show ?thesis by (simp add: list_all_iff)
qed

lemma lowercase_parse_headers:
  assumes "parse_headers args = Inr hs"
  shows "list_all (\<lambda>p. toLowerCase (fst p) = fst p) hs"
  unfolding parse_headers_Inr [OF assms]
  by (rule lowercase_assign_from) (simp_all add: list_all_iff header_name_lowercase)

lemma lowercase_request_headers:
  assumes "parse_headers args = Inr hs"
  shows "list_all (\<lambda>p. toLowerCase (fst p) = fst p) (request_headers d hs ep)"
  unfolding request_headers_assign
  by (intro lowercase_assign_from lowercase_parse_headers [OF assms])
    (simp_all add: list_all_iff toLowerCase_idem user_agent_lowercase host_lowercase)

lemma one_entry:
  "distinct (map fst xs) \<Longrightarrow> map_of xs k = Some v \<Longrightarrow> length (filter (\<lambda>p. fst p = k) xs) = 1"
proof (induction xs)
  case Nil
  then show ?case by simp
next
  case (Cons p ps)
  show ?case
  proof (cases "fst p = k")
    case True
    with Cons.prems have "k \<notin> fst ` set ps" by auto
    then have "filter (\<lambda>p. fst p = k) ps = []" by (auto simp: filter_empty_conv)
    with True show ?thesis by simp
  next
    case False
    with Cons show ?thesis by (auto split: if_splits)
  qed
qed

section \<open>The header mapping of the request\<close>

lemma req_headers_unsigned:
  "req_headers (unsigned_request d region hs m ep payload) = request_headers d hs ep"
  by (simp add: unsigned_request_def)

lemma createRequest_Inr:
  "createRequest sd region service hs method url payload creds = Inr r \<Longrightarrow>
   \<exists>ep. Endpoint sd url = Inr ep \<and>
     addAuthorization sd (unsigned_request (HttpRequest_headers sd) region hs method ep payload)
       service creds = Inr r"
  by (auto simp: createRequest_def split: sum.splits)

lemmas header_eval =
  createRequest_def unsigned_request_def request_headers_def lowercaseKeys_def parse_headers_def
  js_set_def header_name_def header_value_def indexOf_def substr_def toLowerCase_def
  lower_unit_def in_range_def Let_def




text \<open>
  C1 (as the code has it). Whenever \<open>createRequest\<close> returns a request, that request is
  what the signer made of the request built at lines 179 to 189, and the header mapping
  of the request that was built has exactly one \<open>host\<close> header, whose value is the host
  of the endpoint made from the URL, whatever headers the caller supplies: \<open>host\<close> is
  assigned last.
\<close>

theorem host_header_is_endpoint_host:
  assumes "parse_headers args = Inr hs"
    and "createRequest sd region service hs m url payload creds = Inr r"
  shows "\<exists>ep req. Endpoint sd url = Inr ep
     \<and> req = unsigned_request (HttpRequest_headers sd) region hs m ep payload
     \<and> addAuthorization sd req service creds = Inr r
     \<and> map_of (req_headers req) ''host'' = Some (ep_host ep)
     \<and> length (filter (\<lambda>p. toLowerCase (fst p) = ''host'') (req_headers req)) = 1"
proof -
  from createRequest_Inr [OF assms(2)] obtain ep where
    ep: "Endpoint sd url = Inr ep"
    and sig: "addAuthorization sd
       (unsigned_request (HttpRequest_headers sd) region hs m ep payload) service creds = Inr r"
    by blast
  let ?H = "request_headers (HttpRequest_headers sd) hs ep"
  have look: "map_of ?H ''host'' = Some (ep_host ep)"
    by (simp add: map_of_request_headers [OF assms(1)] header_assignments_def)
  have "filter (\<lambda>p. toLowerCase (fst p) = ''host'') ?H = filter (\<lambda>p. fst p = ''host'') ?H"
    using lowercase_request_headers [OF assms(1), of "HttpRequest_headers sd" ep]
    by (intro filter_cong) (auto simp: list_all_iff)
  with look one_entry [OF distinct_request_headers look]
  have "map_of ?H ''host'' = Some (ep_host ep)
      \<and> length (filter (\<lambda>p. toLowerCase (fst p) = ''host'') ?H) = 1"
    by simp
  with ep sig show ?thesis by (simp add: req_headers_unsigned)
qed

theorem host_header_is_endpoint_host_witness:
  "parse_headers [Str ''Accept:*/*''] = Inr [(''accept'', ''*/*'')]
   \<and> createRequest
       \<lparr>Endpoint = (\<lambda>u. Inr \<lparr>ep_host = ''es.amazonaws.com'', ep_href = u\<rparr>),
        HttpRequest_headers = [(''User-Agent'', ''aws-sdk-nodejs'')],
        addAuthorization = (\<lambda>r s c. Inr r)\<rparr>
       ''us-east-1'' ''es'' [(''accept'', ''*/*'')] ''GET'' ''https://es.amazonaws.com/'' []
       \<lparr>accessKeyId = ''AKID'', secretAccessKey = ''secret'', sessionToken = None\<rparr> =
     Inr \<lparr>req_region = ''us-east-1'', req_method = ''GET'', req_body = [],
          req_endpoint = \<lparr>ep_host = ''es.amazonaws.com'', ep_href = ''https://es.amazonaws.com/''\<rparr>,
          req_headers = [(''user-agent'', USER_AGENT), (''accept'', ''*/*''),
            (''host'', ''es.amazonaws.com'')]\<rparr>
   \<and> map_of (req_headers (unsigned_request [(''User-Agent'', ''aws-sdk-nodejs'')] ''us-east-1''
        [(''accept'', ''*/*'')] ''GET''
        \<lparr>ep_host = ''es.amazonaws.com'', ep_href = ''https://es.amazonaws.com/''\<rparr> [])) ''host'' =
      Some ''es.amazonaws.com''"
proof -
  let ?sd = "\<lparr>Endpoint = (\<lambda>u. Inr \<lparr>ep_host = ''es.amazonaws.com'', ep_href = u\<rparr>),
        HttpRequest_headers = [(''User-Agent'', ''aws-sdk-nodejs'')],
        addAuthorization = (\<lambda>r s c. Inr r)\<rparr>"
  let ?creds = "\<lparr>accessKeyId = ''AKID'', secretAccessKey = ''secret'', sessionToken = None\<rparr>"
  let ?r = "\<lparr>req_region = ''us-east-1'', req_method = ''GET'', req_body = [],
          req_endpoint = \<lparr>ep_host = ''es.amazonaws.com'', ep_href = ''https://es.amazonaws.com/''\<rparr>,
          req_headers = [(''user-agent'', USER_AGENT), (''accept'', ''*/*''),
            (''host'', ''es.amazonaws.com'')]\<rparr>"
  have p: "parse_headers [Str ''Accept:*/*''] = Inr [(''accept'', ''*/*'')]"
    by (simp add: header_eval)
  have c: "createRequest ?sd ''us-east-1'' ''es'' [(''accept'', ''*/*'')] ''GET''
      ''https://es.amazonaws.com/'' [] ?creds = Inr ?r"
    by (simp add: header_eval)
  from host_header_is_endpoint_host [OF p c] obtain ep req where
    e: "Endpoint ?sd ''https://es.amazonaws.com/'' = Inr ep"
    and q: "req = unsigned_request (HttpRequest_headers ?sd) ''us-east-1'' [(''accept'', ''*/*'')]
        ''GET'' ep []"
    and h: "map_of (req_headers req) ''host'' = Some (ep_host ep)"
    by blast
  from e have "ep = \<lparr>ep_host = ''es.amazonaws.com'', ep_href = ''https://es.amazonaws.com/''\<rparr>"
    by simp
  with q h have "map_of (req_headers (unsigned_request [(''User-Agent'', ''aws-sdk-nodejs'')]
        ''us-east-1'' [(''accept'', ''*/*'')] ''GET''
        \<lparr>ep_host = ''es.amazonaws.com'', ep_href = ''https://es.amazonaws.com/''\<rparr> [])) ''host'' =
      Some ''es.amazonaws.com''"
    by simp
  with p c show ?thesis by blast
qed

text \<open>
  The claim as stated fails: a \<open>host\<close> header supplied by the caller does not win over
  the host of the endpoint.
\<close>

theorem caller_host_does_not_win:
  "parse_headers [Str ''Host:caller.example''] = Inr [(''host'', ''caller.example'')]
   \<and> map_of (req_headers (unsigned_request [(''User-Agent'', ''aws-sdk-nodejs'')] ''us-east-1''
        [(''host'', ''caller.example'')] ''GET''
        \<lparr>ep_host = ''es.amazonaws.com'', ep_href = ''https://es.amazonaws.com/''\<rparr> [])) ''host'' =
      Some ''es.amazonaws.com''"
  by (simp add: header_eval)

text \<open>
  A header argument that is a string without a colon: its name is the empty string and
  its value the whole argument, and when it is the last argument of a loop that ends
  without exception, the mapping has exactly one entry with the empty name, holding
  this argument.
\<close>

lemma header_without_colon:
  assumes "CHR '':'' \<notin> set arg" and "parse_headers (args @ [Str arg]) = Inr hs"
  shows "header_name arg = [] \<and> header_value arg = arg
         \<and> map_of hs [] = Some arg
         \<and> length (filter (\<lambda>p. fst p = []) hs) = 1"
proof -
  have nv: "header_name arg = []" "header_value arg = arg"
    using assms(1) by (simp_all add: header_no_colon)
  have look: "map_of hs [] = Some arg"
    by (simp add: map_of_parse_headers [OF assms(2)] nv)
  from nv look one_entry [OF distinct_parse_headers [OF assms(2)] look] show ?thesis by simp
qed



text \<open>
  C10. Whenever \<open>createRequest\<close> returns a request, that request is what the signer made
  of the request built at lines 179 to 189, and the header mapping of the request that
  was built has a \<open>user-agent\<close> header. Without a header argument of that name it is the
  default, which names the package, its version and its repository; a header argument
  whose name is \<open>user-agent\<close> in any letter case replaces the default (the last such
  argument counts).
\<close>

theorem user_agent_default_and_override:
  assumes "parse_headers args = Inr hs"
    and "createRequest sd region service hs m url payload creds = Inr r"
  shows "\<exists>ep req. Endpoint sd url = Inr ep
     \<and> req = unsigned_request (HttpRequest_headers sd) region hs m ep payload
     \<and> addAuthorization sd req service creds = Inr r
     \<and> map_of (req_headers req) ''user-agent'' =
         Some (case map_of hs ''user-agent'' of None \<Rightarrow> USER_AGENT | Some v \<Rightarrow> v)
     \<and> (list_all (\<lambda>a. header_name (arg_text a) \<noteq> ''user-agent'') args \<longrightarrow>
          map_of (req_headers req) ''user-agent'' = Some USER_AGENT)
     \<and> (\<forall>pre n v post.
           args = pre @ Str (n @ CHR '':'' # v) # post \<and> CHR '':'' \<notin> set n
           \<and> toLowerCase n = ''user-agent''
           \<and> list_all (\<lambda>a. header_name (arg_text a) \<noteq> ''user-agent'') post \<longrightarrow>
           map_of (req_headers req) ''user-agent'' = Some v)
     \<and> USER_AGENT = ''http-aws4/0.7.0 (https://github.com/timdp/http-aws4)''"
proof -
  from createRequest_Inr [OF assms(2)] obtain ep where
    ep: "Endpoint sd url = Inr ep"
    and sig: "addAuthorization sd
       (unsigned_request (HttpRequest_headers sd) region hs m ep payload) service creds = Inr r"
    by blast
  let ?H = "request_headers (HttpRequest_headers sd) hs ep"
  let ?nv = "\<lambda>a. (header_name (arg_text a), header_value (arg_text a))"
  have none: "map_of (rev (map ?nv xs)) ''user-agent'' = None"
    if "list_all (\<lambda>a. header_name (arg_text a) \<noteq> ''user-agent'') xs" for xs
    using that by (auto simp: map_of_eq_None_iff list_all_iff image_iff)
  have hs: "map_of hs ''user-agent'' = map_of (rev (map ?nv args)) ''user-agent''"
    by (simp add: map_of_parse_headers [OF assms(1)])
  have 1: "map_of ?H ''user-agent'' =
     Some (case map_of hs ''user-agent'' of None \<Rightarrow> USER_AGENT | Some v \<Rightarrow> v)"
    by (simp add: map_of_request_headers [OF assms(1)] hs header_assignments_def
        map_add_def split: option.splits)
  have 2: "map_of ?H ''user-agent'' = Some USER_AGENT"
    if "list_all (\<lambda>a. header_name (arg_text a) \<noteq> ''user-agent'') args"
    using none [OF that] by (simp add: 1 hs)
  have 3: "map_of ?H ''user-agent'' = Some v"
    if "args = pre @ Str (n @ CHR '':'' # v) # post" "CHR '':'' \<notin> set n"
      "toLowerCase n = ''user-agent''"
      "list_all (\<lambda>a. header_name (arg_text a) \<noteq> ''user-agent'') post"
    for pre n v post
    using none [OF that(4)] header_colon [OF that(2), of v] that(3)
    by (simp add: 1 hs that(1) map_add_def)
  have 4: "USER_AGENT = ''http-aws4/0.7.0 (https://github.com/timdp/http-aws4)''"
    by (simp add: USER_AGENT_def pkg_name_def pkg_version_def pkg_repository_def)
  from 1 2 3 4 ep sig show ?thesis
    unfolding req_headers_unsigned [symmetric, of "HttpRequest_headers sd" hs ep region m payload]
    by blast
qed

theorem user_agent_default_and_override_witness:
  "parse_headers [Str ''user-agent:first'', Str ''USER-Agent:curl/8'', Str ''Accept:*/*''] =
     Inr [(''user-agent'', ''curl/8''), (''accept'', ''*/*'')]
   \<and> createRequest
       \<lparr>Endpoint = (\<lambda>u. Inr \<lparr>ep_host = ''es.amazonaws.com'', ep_href = u\<rparr>),
        HttpRequest_headers = [(''User-Agent'', ''aws-sdk-nodejs'')],
        addAuthorization = (\<lambda>r s c. Inr r)\<rparr>
       ''us-east-1'' ''es'' [(''user-agent'', ''curl/8''), (''accept'', ''*/*'')] ''GET''
       ''https://es.amazonaws.com/'' []
       \<lparr>accessKeyId = ''AKID'', secretAccessKey = ''secret'', sessionToken = None\<rparr> =
     Inr \<lparr>req_region = ''us-east-1'', req_method = ''GET'', req_body = [],
          req_endpoint = \<lparr>ep_host = ''es.amazonaws.com'', ep_href = ''https://es.amazonaws.com/''\<rparr>,
          req_headers = [(''user-agent'', ''curl/8''), (''accept'', ''*/*''),
            (''host'', ''es.amazonaws.com'')]\<rparr>
   \<and> CHR '':'' \<notin> set ''USER-Agent'' \<and> toLowerCase ''USER-Agent'' = ''user-agent''
   \<and> list_all (\<lambda>a. header_name (arg_text a) \<noteq> ''user-agent'') [Str ''Accept:*/*'']
   \<and> map_of (req_headers (unsigned_request [(''User-Agent'', ''aws-sdk-nodejs'')] ''us-east-1''
        [(''user-agent'', ''curl/8''), (''accept'', ''*/*'')] ''GET''
        \<lparr>ep_host = ''es.amazonaws.com'', ep_href = ''https://es.amazonaws.com/''\<rparr> []))
        ''user-agent'' = Some ''curl/8''"
proof -
  let ?sd = "\<lparr>Endpoint = (\<lambda>u. Inr \<lparr>ep_host = ''es.amazonaws.com'', ep_href = u\<rparr>),
        HttpRequest_headers = [(''User-Agent'', ''aws-sdk-nodejs'')],
        addAuthorization = (\<lambda>r s c. Inr r)\<rparr>"
  let ?creds = "\<lparr>accessKeyId = ''AKID'', secretAccessKey = ''secret'', sessionToken = None\<rparr>"
  let ?args = "[Str ''user-agent:first'', Str ''USER-Agent:curl/8'', Str ''Accept:*/*'']"
  let ?hs = "[(''user-agent'', ''curl/8''), (''accept'', ''*/*'')]"
  let ?r = "\<lparr>req_region = ''us-east-1'', req_method = ''GET'', req_body = [],
          req_endpoint = \<lparr>ep_host = ''es.amazonaws.com'', ep_href = ''https://es.amazonaws.com/''\<rparr>,
          req_headers = [(''user-agent'', ''curl/8''), (''accept'', ''*/*''),
            (''host'', ''es.amazonaws.com'')]\<rparr>"
  have p: "parse_headers ?args = Inr ?hs"
    by (simp add: header_eval)
  have c: "createRequest ?sd ''us-east-1'' ''es'' ?hs ''GET'' ''https://es.amazonaws.com/'' []
      ?creds = Inr ?r"
    by (simp add: header_eval)
  have n: "CHR '':'' \<notin> set ''USER-Agent''" "toLowerCase ''USER-Agent'' = ''user-agent''"
    by (simp_all add: toLowerCase_def lower_unit_def in_range_def)
  have a: "list_all (\<lambda>a. header_name (arg_text a) \<noteq> ''user-agent'') [Str ''Accept:*/*'']"
    by (simp add: header_eval)
  have split: "?args = [Str ''user-agent:first''] @ Str (''USER-Agent'' @ CHR '':'' # ''curl/8'') #
      [Str ''Accept:*/*'']"
    by simp
  from user_agent_default_and_override [OF p c] obtain ep req where
    e: "Endpoint ?sd ''https://es.amazonaws.com/'' = Inr ep"
    and q: "req = unsigned_request (HttpRequest_headers ?sd) ''us-east-1'' ?hs ''GET'' ep []"
    and o: "\<forall>pre n v post.
           ?args = pre @ Str (n @ CHR '':'' # v) # post \<and> CHR '':'' \<notin> set n
           \<and> toLowerCase n = ''user-agent''
           \<and> list_all (\<lambda>a. header_name (arg_text a) \<noteq> ''user-agent'') post \<longrightarrow>
           map_of (req_headers req) ''user-agent'' = Some v"
    by blast
  from o split n a have u: "map_of (req_headers req) ''user-agent'' = Some ''curl/8''"
    by blast
  from e have "ep = \<lparr>ep_host = ''es.amazonaws.com'', ep_href = ''https://es.amazonaws.com/''\<rparr>"
    by simp
  with q u have "map_of (req_headers (unsigned_request [(''User-Agent'', ''aws-sdk-nodejs'')]
        ''us-east-1'' ?hs ''GET''
        \<lparr>ep_host = ''es.amazonaws.com'', ep_href = ''https://es.amazonaws.com/''\<rparr> []))
        ''user-agent'' = Some ''curl/8''"
    by simp
  with p c n a show ?thesis by blast
qed

section \<open>Region and service with an override\<close>

text \<open>
  C4. With an explicit region the resolved region is that value, and with an explicit
  service the resolved service is that value, whatever the URL: the host name is not
  consulted.
\<close>

theorem explicit_override_wins:
  "resolve_region (Some r) url = Inr r \<and> resolve_service (Some s) url = Inr s"
  by (simp add: resolve_region_def resolve_service_def)

theorem explicit_override_wins_witness:
  "resolve_region (Some ''eu-west-1'') ''https://example.com'' = Inr ''eu-west-1''
   \<and> resolve_service (Some ''es'') ''https://example.com'' = Inr ''es''"
  by (rule explicit_override_wins)

section \<open>Responses and errors\<close>

lemma on_events_data:
  "on_events m (map Data chunks @ es) = on_events (m\<lparr>body := body m @ concat chunks\<rparr>) es"
  by (induction chunks arbitrary: m) simp_all

text \<open>
  C5. When the response stream delivers its chunks and then ends, a status code outside
  [200, 300) rejects with an error whose \<open>response\<close> is the metadata (status code, status
  message, headers and the whole body), which \<open>handleError\<close> displays as a response; a
  status code inside [200, 300) resolves with that metadata. An error of the stream is
  passed on as it is, and an error without a \<open>response\<close> is logged, not displayed as a
  response.
\<close>

theorem response_classification:
  "handleResponse r (map Data chunks @ End # later) =
     Some (if 200 \<le> in_statusCode r \<and> in_statusCode r < 300
           then Inr \<lparr>statusCode = in_statusCode r, statusMessage = in_statusMessage r,
                     headers = in_headers r, body = concat chunks\<rparr>
           else Inl \<lparr>err_name = ''Error'',
                     response = Some \<lparr>statusCode = in_statusCode r,
                       statusMessage = in_statusMessage r, headers = in_headers r,
                       body = concat chunks\<rparr>\<rparr>)
   \<and> handleError \<lparr>err_name = ''Error'', response = Some m\<rparr> = [Display m ''error'', Exit 1]
   \<and> handleResponse r (map Data chunks @ ErrorEvent e # later) = Some (Inl e)
   \<and> (response e = None \<longrightarrow> handleError e = [LogError e, Exit 1])"
  by (auto simp: handleResponse_def on_events_data handleError_def)

theorem response_classification_witness:
  "handleResponse \<lparr>in_statusCode = 404, in_statusMessage = ''Not Found'', in_headers = []\<rparr>
     (map Data [''no '', ''index''] @ End # []) =
     Some (Inl \<lparr>err_name = ''Error'',
       response = Some \<lparr>statusCode = 404, statusMessage = ''Not Found'', headers = [],
         body = ''no index''\<rparr>\<rparr>)
   \<and> handleResponse \<lparr>in_statusCode = 200, in_statusMessage = ''OK'', in_headers = []\<rparr>
     (map Data [''{}''] @ End # []) =
     Some (Inr \<lparr>statusCode = 200, statusMessage = ''OK'', headers = [], body = ''{}''\<rparr>)
   \<and> response \<lparr>err_name = ''Error'', response = None\<rparr> = None
   \<and> handleError \<lparr>err_name = ''Error'', response = None\<rparr> =
       [LogError \<lparr>err_name = ''Error'', response = None\<rparr>, Exit 1]"
  using response_classification [of "\<lparr>in_statusCode = 404, in_statusMessage = ''Not Found'', in_headers = []\<rparr>"
      "[''no '', ''index'']" "[]" undefined "\<lparr>err_name = ''Error'', response = None\<rparr>"]
    response_classification [of "\<lparr>in_statusCode = 200, in_statusMessage = ''OK'', in_headers = []\<rparr>"
      "[''{}'']" "[]" undefined "\<lparr>err_name = ''Error'', response = None\<rparr>"]
  by simp

section \<open>The run as a whole\<close>

lemma sends_append: "sends (xs @ ys) = sends xs @ sends ys"
  by (induction xs rule: sends.induct) simp_all

lemma sends_handleError: "sends (handleError e) = []"
  by (simp add: handleError_def split: option.splits)

lemma sends_handleRequest: "sends (handleRequest p req payload) = [req]"
  by (simp add: handleRequest_def)

lemma sends_promise_chain:
  "sends (promise_chain en av region service hs method url) =
     (case promise_all (getStdin en) (getCredentials en av) of
        Inl e \<Rightarrow> []
      | Inr (payload, creds) \<Rightarrow>
          (case createRequest (aws en) region service hs method url payload creds of
             Inl e \<Rightarrow> []
           | Inr req \<Rightarrow> [req]))"
  by (simp add: promise_chain_def sends_append sends_handleError sends_handleRequest
      split: sum.splits prod.splits option.splits)

lemma sent_main:
  "sent (main en av) =
     (case parse_method_url (positional av) of
        Inl e \<Rightarrow> []
      | Inr (method, url, args) \<Rightarrow>
          (case normalizeUrl en url of
             Inl e \<Rightarrow> []
           | Inr url' \<Rightarrow>
               (case resolve_region (opt_region av) url' of
                  Inl e \<Rightarrow> []
                | Inr region \<Rightarrow>
                    (case resolve_service (opt_service av) url' of
                       Inl e \<Rightarrow> []
                     | Inr service \<Rightarrow>
                         (case parse_headers args of
                            Inl e \<Rightarrow> []
                          | Inr hs \<Rightarrow>
                              sends (promise_chain en av region service hs method url'))))))"
  by (simp add: main_def split: sum.splits prod.splits)

lemma sends_chain_signed:
  assumes "r \<in> set (sends (promise_chain en av region service hs method url))"
  shows "\<exists>ep payload creds.
     addAuthorization (aws en)
       (unsigned_request (HttpRequest_headers (aws en)) region hs method ep payload)
       service creds = Inr r"
proof -
  from assms obtain payload creds where
    "createRequest (aws en) region service hs method url payload creds = Inr r"
    by (auto simp: sends_promise_chain split: sum.splits prod.splits)
  from createRequest_Inr [OF this] show ?thesis by blast
qed

text \<open>
  C7. When the URL cannot be normalised or made into an endpoint, the region or the
  service cannot be resolved, or the credentials or the standard input cannot be
  obtained, no request is given to the transport. In every run at most one request is
  given to the transport, and it is the one the signer returned for the request that
  \<open>createRequest\<close> built.
\<close>

theorem no_dispatch_after_upstream_failure:
  "(parse_method_url (positional av) = Inr (method, url, args) \<and>
      (normalizeUrl en url = Inl e
       \<or> (\<exists>u. normalizeUrl en url = Inr u \<and>
              (resolve_region (opt_region av) u = Inl e
               \<or> resolve_service (opt_service av) u = Inl e
               \<or> Endpoint (aws en) u = Inl e))
       \<or> getCredentials en av = Inl e
       \<or> getStdin en = Inl e)
     \<longrightarrow> sent (main en av) = [])
   \<and> (\<forall>r \<in> set (sent (main en av)).
         \<exists>region service hs meth ep payload creds.
           addAuthorization (aws en)
             (unsigned_request (HttpRequest_headers (aws en)) region hs meth ep payload)
             service creds = Inr r)
   \<and> length (sent (main en av)) \<le> 1"
proof (intro conjI impI ballI)
  assume "parse_method_url (positional av) = Inr (method, url, args) \<and>
      (normalizeUrl en url = Inl e
       \<or> (\<exists>u. normalizeUrl en url = Inr u \<and>
              (resolve_region (opt_region av) u = Inl e
               \<or> resolve_service (opt_service av) u = Inl e
               \<or> Endpoint (aws en) u = Inl e))
       \<or> getCredentials en av = Inl e
       \<or> getStdin en = Inl e)"
  then show "sent (main en av) = []"
    by (auto simp: sent_main sends_promise_chain promise_all_def createRequest_def
        split: sum.splits prod.splits)
next
  fix r assume "r \<in> set (sent (main en av))"
  then show "\<exists>region service hs meth ep payload creds.
           addAuthorization (aws en)
             (unsigned_request (HttpRequest_headers (aws en)) region hs meth ep payload)
             service creds = Inr r"
    by (auto simp: sent_main split: sum.splits prod.splits dest!: sends_chain_signed) blast
next
  show "length (sent (main en av)) \<le> 1"
    by (simp add: sent_main sends_promise_chain split: sum.splits prod.splits)
qed

lemma not_a_word: "\<not> test_anchored False word_re ''https://es.amazonaws.com/''"
  by (simp add: test_word_iff in_class_def in_range_def word_chars_def)

theorem no_dispatch_after_upstream_failure_witness:
  "getCredentials
     \<lparr>normalizeUrl = (\<lambda>u. case u of Some (Str s) \<Rightarrow> Inr s | _ \<Rightarrow> Inl TypeError),
      aws = \<lparr>Endpoint = (\<lambda>u. Inr \<lparr>ep_host = ''es.amazonaws.com'', ep_href = u\<rparr>),
              HttpRequest_headers = [(''User-Agent'', ''aws-sdk-nodejs'')],
              addAuthorization = (\<lambda>r s c. Inr (r\<lparr>req_headers :=
                 put ''Authorization'' ''AWS4-HMAC-SHA256'' (req_headers r)\<rparr>))\<rparr>,
      getStdin = Inr [],
      SharedIniFileCredentials = (\<lambda>p. \<lparr>accessKeyId = [], secretAccessKey = [], sessionToken = None\<rparr>),
      config_getCredentials = Inl \<lparr>err_name = ''CredentialsError'', response = None\<rparr>,
      transport = (\<lambda>r. Inr (\<lparr>in_statusCode = 200, in_statusMessage = ''OK'', in_headers = []\<rparr>,
                              [Data ''{}'', End]))\<rparr>
     \<lparr>positional = [Str ''https://es.amazonaws.com/''], opt_print = ''b'', opt_pretty = ''none'',
      opt_region = Some ''us-east-1'', opt_profile = None, opt_service = Some ''es''\<rparr> =
     Inl \<lparr>err_name = ''CredentialsError'', response = None\<rparr>
   \<and> sent (main
     \<lparr>normalizeUrl = (\<lambda>u. case u of Some (Str s) \<Rightarrow> Inr s | _ \<Rightarrow> Inl TypeError),
      aws = \<lparr>Endpoint = (\<lambda>u. Inr \<lparr>ep_host = ''es.amazonaws.com'', ep_href = u\<rparr>),
              HttpRequest_headers = [(''User-Agent'', ''aws-sdk-nodejs'')],
              addAuthorization = (\<lambda>r s c. Inr (r\<lparr>req_headers :=
                 put ''Authorization'' ''AWS4-HMAC-SHA256'' (req_headers r)\<rparr>))\<rparr>,
      getStdin = Inr [],
      SharedIniFileCredentials = (\<lambda>p. \<lparr>accessKeyId = [], secretAccessKey = [], sessionToken = None\<rparr>),
      config_getCredentials = Inl \<lparr>err_name = ''CredentialsError'', response = None\<rparr>,
      transport = (\<lambda>r. Inr (\<lparr>in_statusCode = 200, in_statusMessage = ''OK'', in_headers = []\<rparr>,
                              [Data ''{}'', End]))\<rparr>
     \<lparr>positional = [Str ''https://es.amazonaws.com/''], opt_print = ''b'', opt_pretty = ''none'',
      opt_region = Some ''us-east-1'', opt_profile = None, opt_service = Some ''es''\<rparr>) = []
   \<and> length (sent (main
     \<lparr>normalizeUrl = (\<lambda>u. case u of Some (Str s) \<Rightarrow> Inr s | _ \<Rightarrow> Inl TypeError),
      aws = \<lparr>Endpoint = (\<lambda>u. Inr \<lparr>ep_host = ''es.amazonaws.com'', ep_href = u\<rparr>),
              HttpRequest_headers = [(''User-Agent'', ''aws-sdk-nodejs'')],
              addAuthorization = (\<lambda>r s c. Inr (r\<lparr>req_headers :=
                 put ''Authorization'' ''AWS4-HMAC-SHA256'' (req_headers r)\<rparr>))\<rparr>,
      getStdin = Inr [],
      SharedIniFileCredentials = (\<lambda>p. \<lparr>accessKeyId = [], secretAccessKey = [], sessionToken = None\<rparr>),
      config_getCredentials = Inr \<lparr>accessKeyId = ''AKID'', secretAccessKey = ''secret'', sessionToken = None\<rparr>,
      transport = (\<lambda>r. Inr (\<lparr>in_statusCode = 200, in_statusMessage = ''OK'', in_headers = []\<rparr>,
                              [Data ''{}'', End]))\<rparr>
     \<lparr>positional = [Str ''https://es.amazonaws.com/''], opt_print = ''b'', opt_pretty = ''none'',
      opt_region = Some ''us-east-1'', opt_profile = None, opt_service = Some ''es''\<rparr>)) = 1"
proof -
  let ?sdk = "\<lparr>Endpoint = (\<lambda>u. Inr \<lparr>ep_host = ''es.amazonaws.com'', ep_href = u\<rparr>),
              HttpRequest_headers = [(''User-Agent'', ''aws-sdk-nodejs'')],
              addAuthorization = (\<lambda>r s c. Inr (r\<lparr>req_headers :=
                 put ''Authorization'' ''AWS4-HMAC-SHA256'' (req_headers r)\<rparr>))\<rparr>"
  let ?err = "\<lparr>err_name = ''CredentialsError'', response = None\<rparr>"
  let ?env = "\<lambda>c. \<lparr>normalizeUrl = (\<lambda>u. case u of Some (Str s) \<Rightarrow> Inr s | _ \<Rightarrow> Inl TypeError),
      aws = ?sdk, getStdin = Inr [],
      SharedIniFileCredentials = (\<lambda>p. \<lparr>accessKeyId = [], secretAccessKey = [], sessionToken = None\<rparr>),
      config_getCredentials = c,
      transport = (\<lambda>r. Inr (\<lparr>in_statusCode = 200, in_statusMessage = ''OK'', in_headers = []\<rparr>,
                              [Data ''{}'', End]))\<rparr>"
  let ?av = "\<lparr>positional = [Str ''https://es.amazonaws.com/''], opt_print = ''b'', opt_pretty = ''none'',
      opt_region = Some ''us-east-1'', opt_profile = None, opt_service = Some ''es''\<rparr>"
  let ?creds = "\<lparr>accessKeyId = ''AKID'', secretAccessKey = ''secret'', sessionToken = None\<rparr>"
  have pm: "parse_method_url (positional ?av) =
      Inr (''GET'', Some (Str ''https://es.amazonaws.com/''), [])"
    by (simp add: not_a_word)
  have cr: "getCredentials (?env (Inl ?err)) ?av = Inl ?err"
    by (simp add: getCredentials_def)
  have ok: "sent (main (?env (Inr ?creds)) ?av) \<noteq> []"
    by (simp add: sent_main sends_promise_chain not_a_word resolve_region_def resolve_service_def
        promise_all_def getCredentials_def createRequest_def parse_headers_def)
  from no_dispatch_after_upstream_failure [of ?av "''GET''" "Some (Str ''https://es.amazonaws.com/'')" "[]"
      "?env (Inl ?err)" ?err] pm cr
  have 1: "sent (main (?env (Inl ?err)) ?av) = []" by blast
  from no_dispatch_after_upstream_failure [of ?av "''GET''" "Some (Str ''https://es.amazonaws.com/'')" "[]"
      "?env (Inr ?creds)" ?err]
  have "length (sent (main (?env (Inr ?creds)) ?av)) \<le> 1" by blast
  with ok have 2: "length (sent (main (?env (Inr ?creds)) ?av)) = 1"
    by (cases "sent (main (?env (Inr ?creds)) ?av)") simp_all
  from cr 1 2 show ?thesis by simp
qed

section \<open>What the patterns match\<close>

lemma first_ok_Some:
  "first_ok ic rest xs = Some s' \<Longrightarrow> s' \<in> set xs \<and> rmatch ic rest s' \<noteq> []"
  by (induction xs) (auto split: if_splits)

lemma first_ok_None_iff:
  "first_ok ic rest xs = None \<longleftrightarrow> (\<forall>s' \<in> set xs. rmatch ic rest s' = [])"
  by (induction xs) auto

lemma match_here_Some:
  assumes "match_here ic (Plus a) rest s = Some m"
  shows "\<exists>r. s = m @ r \<and> m \<noteq> [] \<and> list_all (amatch ic a) m \<and> rmatch ic rest r \<noteq> []"
proof -
  from assms obtain s' where f: "first_ok ic rest (plus_match ic a s) = Some s'"
    and m: "m = take (length s - length s') s"
    by (auto simp: match_here_def split: option.splits)
  from first_ok_Some [OF f] obtain p where
    "s = p @ s'" "p \<noteq> []" "list_all (amatch ic a) p" "rmatch ic rest s' \<noteq> []"
    by (auto simp: plus_match_set)
  with m show ?thesis by auto
qed

lemma match_here_None:
  assumes "match_here ic (Plus a) rest s = None"
    and "s = m @ r" "m \<noteq> []" "list_all (amatch ic a) m"
  shows "rmatch ic rest r = []"
proof -
  from assms(1) have "\<forall>s' \<in> set (plus_match ic a s). rmatch ic rest s' = []"
    by (simp add: match_here_def first_ok_None_iff split: option.splits)
  moreover from assms(2-4) have "r \<in> set (plus_match ic a s)"
    by (auto simp: plus_match_set)
  ultimately show ?thesis by blast
qed

lemma exec_Some:
  "exec_group1 ic (Plus a) rest s = Some m \<Longrightarrow>
   \<exists>pre r. s = pre @ m @ r \<and> m \<noteq> [] \<and> list_all (amatch ic a) m \<and> rmatch ic rest r \<noteq> []"
proof (induction s)
  case Nil
  then have "match_here ic (Plus a) rest [] = Some m" by simp
  from match_here_Some [OF this] show ?case by blast
next
  case (Cons c cs)
  show ?case
  proof (cases "match_here ic (Plus a) rest (c # cs)")
    case None
    with Cons.prems have "exec_group1 ic (Plus a) rest cs = Some m" by simp
    from Cons.IH [OF this] obtain pre r where
      "cs = pre @ m @ r" "m \<noteq> []" "list_all (amatch ic a) m" "rmatch ic rest r \<noteq> []"
      by blast
    then have "c # cs = (c # pre) @ m @ r \<and> m \<noteq> [] \<and> list_all (amatch ic a) m
        \<and> rmatch ic rest r \<noteq> []"
      by simp
    then show ?thesis by blast
  next
    case (Some m')
    with Cons.prems have "m' = m" by simp
    with Some match_here_Some [of ic a rest "c # cs" m] obtain r where
      "c # cs = [] @ m @ r \<and> m \<noteq> [] \<and> list_all (amatch ic a) m \<and> rmatch ic rest r \<noteq> []"
      by auto
    then show ?thesis by blast
  qed
qed

lemma exec_None:
  "exec_group1 ic (Plus a) rest s = None \<Longrightarrow> s = pre @ m @ r \<Longrightarrow> m \<noteq> [] \<Longrightarrow>
   list_all (amatch ic a) m \<Longrightarrow> rmatch ic rest r = []"
proof (induction s arbitrary: pre)
  case Nil
  then show ?case by simp
next
  case (Cons c cs)
  from Cons.prems(1) have here: "match_here ic (Plus a) rest (c # cs) = None"
    and later: "exec_group1 ic (Plus a) rest cs = None"
    by (auto split: option.splits)
  show ?case
  proof (cases pre)
    case Nil
    with Cons.prems have "c # cs = m @ r" by simp
    from match_here_None [OF here this Cons.prems(3,4)] show ?thesis .
  next
    case (Cons d pre')
    with Cons.prems(2) have "cs = pre' @ m @ r" by simp
    from Cons.IH [OF later this Cons.prems(3,4)] show ?thesis .
  qed
qed

lemma rmatch_lits:
  "rmatch True (lits l k) s \<noteq> [] \<longleftrightarrow>
     (\<exists>p q. s = p @ q \<and> toUpperCase p = toUpperCase l \<and> rmatch True k q \<noteq> [])"
proof (induction l arbitrary: s)
  case Nil
  then show ?case by (simp add: lits_def toUpperCase_def)
next
  case (Cons x l)
  have step: "rmatch True (lits (x # l) k) s \<noteq> [] \<longleftrightarrow>
      (\<exists>c cs. s = c # cs \<and> upper_char x = upper_char c \<and> rmatch True (lits l k) cs \<noteq> [])"
    by (cases s) (simp_all add: lits_def)
  show ?case
  proof
    assume "rmatch True (lits (x # l) k) s \<noteq> []"
    with step Cons.IH obtain c p q where
      "s = (c # p) @ q" "toUpperCase (c # p) = toUpperCase (x # l)" "rmatch True k q \<noteq> []"
      by (auto simp: toUpperCase_def)
    then show "\<exists>p q. s = p @ q \<and> toUpperCase p = toUpperCase (x # l) \<and> rmatch True k q \<noteq> []"
      by blast
  next
    assume "\<exists>p q. s = p @ q \<and> toUpperCase p = toUpperCase (x # l) \<and> rmatch True k q \<noteq> []"
    then obtain p q where pq: "s = p @ q" "toUpperCase p = toUpperCase (x # l)"
      "rmatch True k q \<noteq> []" by blast
    then obtain c p' where "p = c # p'" "upper_char c = upper_char x"
      "toUpperCase p' = toUpperCase l"
      by (cases p) (auto simp: toUpperCase_def)
    with pq step Cons.IH [of "p' @ q"] show "rmatch True (lits (x # l) k) s \<noteq> []"
      by auto
  qed
qed

lemma upper_char_slash: "upper_char CHR ''/'' = upper_char c \<longleftrightarrow> c = CHR ''/''"
proof -
  have "upper_char CHR ''/'' = upper_char c \<longleftrightarrow>
      (of_char (upper_char CHR ''/'') :: nat) = of_char (upper_char c)"
    by simp
  also have "\<dots> \<longleftrightarrow> (of_char c :: nat) = 47"
    by (auto simp: of_char_upper in_range_def)
  also have "\<dots> \<longleftrightarrow> (of_char c :: nat) = of_char CHR ''/''" by simp
  also have "\<dots> \<longleftrightarrow> c = CHR ''/''" by (simp only: of_char_eq_iff)
  finally show ?thesis .
qed

lemma upper_char_colon: "upper_char CHR '':'' = upper_char c \<longleftrightarrow> c = CHR '':''"
proof -
  have "upper_char CHR '':'' = upper_char c \<longleftrightarrow>
      (of_char (upper_char CHR '':'') :: nat) = of_char (upper_char c)"
    by simp
  also have "\<dots> \<longleftrightarrow> (of_char c :: nat) = 58"
    by (auto simp: of_char_upper in_range_def)
  also have "\<dots> \<longleftrightarrow> (of_char c :: nat) = of_char CHR '':''" by simp
  also have "\<dots> \<longleftrightarrow> c = CHR '':''" by (simp only: of_char_eq_iff)
  finally show ?thesis .
qed

lemma upper_char_dot: "upper_char CHR ''.'' = upper_char c \<longleftrightarrow> c = CHR ''.''"
proof -
  have "upper_char CHR ''.'' = upper_char c \<longleftrightarrow>
      (of_char (upper_char CHR ''.'') :: nat) = of_char (upper_char c)"
    by simp
  also have "\<dots> \<longleftrightarrow> (of_char c :: nat) = 46"
    by (auto simp: of_char_upper in_range_def)
  also have "\<dots> \<longleftrightarrow> (of_char c :: nat) = of_char CHR ''.''" by simp
  also have "\<dots> \<longleftrightarrow> c = CHR ''.''" by (simp only: of_char_eq_iff)
  finally show ?thesis .
qed

lemma rmatch_host_end: "rmatch True host_end q \<noteq> [] \<longleftrightarrow> host_end_ok q"
  by (cases q) (auto simp: host_end_def host_end_ok_def upper_char_slash upper_char_colon)

lemma domain_upper: "toUpperCase ''.amazonaws.com'' = ''.AMAZONAWS.COM''"
  by (simp add: toUpperCase_def upper_char_def in_range_def)

lemma rmatch_service_rest:
  "rmatch True service_rest r \<noteq> [] \<longleftrightarrow>
     (\<exists>dom post. r = dom @ post \<and> toUpperCase dom = ''.AMAZONAWS.COM'' \<and> host_end_ok post)"
  by (simp add: service_rest_def rmatch_lits rmatch_host_end domain_upper)

lemma rmatch_Seq_nonempty:
  "rmatch ic (Seq r1 r2) s \<noteq> [] \<longleftrightarrow> (\<exists>s' \<in> set (rmatch ic r1 s). rmatch ic r2 s' \<noteq> [])"
  by auto

lemma rmatch_region_rest:
  "rmatch True region_rest r \<noteq> [] \<longleftrightarrow>
     (\<exists>w dom post. r = CHR ''.'' # w @ dom @ post \<and> w \<noteq> [] \<and> list_all (in_class word_chars) w
        \<and> toUpperCase dom = ''.AMAZONAWS.COM'' \<and> host_end_ok post)"
proof -
  have word: "amatch True (Cls word_chars) = in_class word_chars"
    by (rule ext) (rule amatch_word_ci)
  have "rmatch True region_rest r \<noteq> [] \<longleftrightarrow>
      (\<exists>cs. r = CHR ''.'' # cs \<and>
         (\<exists>s' \<in> set (plus_match True (Cls word_chars) cs).
            rmatch True (lits ''.amazonaws.com'' host_end) s' \<noteq> []))"
    unfolding region_rest_def
    by (cases r) (simp_all add: upper_char_dot del: rmatch.simps(3) add: rmatch_Seq_nonempty)
  also have "\<dots> \<longleftrightarrow>
      (\<exists>w dom post. r = CHR ''.'' # w @ dom @ post \<and> w \<noteq> [] \<and> list_all (in_class word_chars) w
        \<and> toUpperCase dom = ''.AMAZONAWS.COM'' \<and> host_end_ok post)"
    by (simp add: plus_match_set word rmatch_lits rmatch_host_end domain_upper) blast
  finally show ?thesis .
qed

lemma amatch_region_ci:
  "amatch True (Cls [(CHR ''a'', CHR ''z''), (CHR ''0'', CHR ''9''), (CHR ''-'', CHR ''-'')]) c =
     in_class [(CHR ''a'', CHR ''z''), (CHR ''A'', CHR ''Z''), (CHR ''0'', CHR ''9''),
       (CHR ''-'', CHR ''-'')] c"
  by (auto simp: in_class_def in_range_def of_char_upper of_char_lower split: if_splits)

lemma word_run:
  "list_all (amatch True (Cls word_chars)) m \<longleftrightarrow> list_all (in_class word_chars) m"
proof -
  have "amatch True (Cls word_chars) = in_class word_chars"
    by (rule ext) (rule amatch_word_ci)
  then show ?thesis by simp
qed

lemma region_run:
  "list_all (amatch True (Cls [(CHR ''a'', CHR ''z''), (CHR ''0'', CHR ''9''),
     (CHR ''-'', CHR ''-'')])) m \<longleftrightarrow>
   list_all (in_class [(CHR ''a'', CHR ''z''), (CHR ''A'', CHR ''Z''), (CHR ''0'', CHR ''9''),
     (CHR ''-'', CHR ''-'')]) m"
proof -
  have "amatch True (Cls [(CHR ''a'', CHR ''z''), (CHR ''0'', CHR ''9''), (CHR ''-'', CHR ''-'')]) =
      in_class [(CHR ''a'', CHR ''z''), (CHR ''A'', CHR ''Z''), (CHR ''0'', CHR ''9''),
        (CHR ''-'', CHR ''-'')]"
    by (rule ext) (rule amatch_region_ci)
  then show ?thesis by simp
qed

lemma region_exec_Some:
  assumes "exec_group1 True region_group region_rest url = Some m"
  shows "region_match url m"
proof -
  from exec_Some [OF assms [unfolded region_group_def]] obtain pre r where
    "url = pre @ m @ r" "m \<noteq> []"
    "list_all (in_class [(CHR ''a'', CHR ''z''), (CHR ''A'', CHR ''Z''), (CHR ''0'', CHR ''9''),
       (CHR ''-'', CHR ''-'')]) m"
    "rmatch True region_rest r \<noteq> []"
    by (auto simp: region_run)
  then show ?thesis
    unfolding region_match_def by (simp add: rmatch_region_rest) blast
qed

lemma region_exec_None:
  assumes "exec_group1 True region_group region_rest url = None"
  shows "\<not> region_match url m"
proof
  assume "region_match url m"
  then obtain pre w dom post where d: "url = pre @ m @ CHR ''.'' # w @ dom @ post" "m \<noteq> []"
    "list_all (in_class [(CHR ''a'', CHR ''z''), (CHR ''A'', CHR ''Z''),
              (CHR ''0'', CHR ''9''), (CHR ''-'', CHR ''-'')]) m"
    "w \<noteq> []" "list_all (in_class word_chars) w"
    "toUpperCase dom = ''.AMAZONAWS.COM''" "host_end_ok post"
    unfolding region_match_def by blast
  from d(3) have run: "list_all (amatch True (Cls [(CHR ''a'', CHR ''z''), (CHR ''0'', CHR ''9''),
     (CHR ''-'', CHR ''-'')])) m"
    by (simp only: region_run)
  have "rmatch True region_rest (CHR ''.'' # w @ dom @ post) = []"
    by (rule exec_None [OF assms [unfolded region_group_def] d(1,2) run])
  moreover from d(4-7) have "rmatch True region_rest (CHR ''.'' # w @ dom @ post) \<noteq> []"
    unfolding rmatch_region_rest by blast
  ultimately show False by contradiction
qed

subsection \<open>The leftmost match of the service pattern\<close>

lemma exec_leftmost:
  "exec_group1 ic g rest s = Some m \<Longrightarrow>
   \<exists>n \<le> length s. match_here ic g rest (drop n s) = Some m
      \<and> (\<forall>k < n. match_here ic g rest (drop k s) = None)"
proof (induction s)
  case Nil
  then show ?case by simp
next
  case (Cons c cs)
  show ?case
  proof (cases "match_here ic g rest (c # cs)")
    case (Some m')
    with Cons.prems have "match_here ic g rest (drop 0 (c # cs)) = Some m" by simp
    then show ?thesis by blast
  next
    case None
    with Cons.prems have "exec_group1 ic g rest cs = Some m" by simp
    from Cons.IH [OF this] obtain n where n: "n \<le> length cs"
      and here: "match_here ic g rest (drop n cs) = Some m"
      and before: "\<And>k. k < n \<Longrightarrow> match_here ic g rest (drop k cs) = None"
      by blast
    have "match_here ic g rest (drop k (c # cs)) = None" if "k < Suc n" for k
    proof (cases k)
      case 0
      with None show ?thesis by simp
    next
      case (Suc j)
      with that have "j < n" by simp
      from before [OF this] Suc show ?thesis by simp
    qed
    moreover from n have "Suc n \<le> length (c # cs)" by simp
    moreover from here have "match_here ic g rest (drop (Suc n) (c # cs)) = Some m" by simp
    ultimately show ?thesis by blast
  qed
qed

lemma match_here_service_Some:
  assumes "match_here True service_group service_rest suf = Some m"
  shows "service_at (pre @ suf) pre m"
proof -
  from match_here_Some [OF assms [unfolded service_group_def]] obtain r where
    "suf = m @ r" "m \<noteq> []" "list_all (in_class word_chars) m"
    "rmatch True service_rest r \<noteq> []"
    by (auto simp: word_run)
  then show ?thesis
    unfolding service_at_def by (simp add: rmatch_service_rest)
qed

lemma match_here_service_None:
  assumes "match_here True service_group service_rest suf = None"
  shows "\<not> service_at (pre @ suf) pre m"
proof
  assume "service_at (pre @ suf) pre m"
  then obtain dom post where d: "suf = m @ dom @ post" "m \<noteq> []"
    "list_all (in_class word_chars) m" "toUpperCase dom = ''.AMAZONAWS.COM''" "host_end_ok post"
    unfolding service_at_def by auto
  from d(3) have run: "list_all (amatch True (Cls word_chars)) m" by (simp only: word_run)
  have "rmatch True service_rest (dom @ post) = []"
    by (rule match_here_None [OF assms [unfolded service_group_def] d(1,2) run])
  moreover from d(4,5) have "rmatch True service_rest (dom @ post) \<noteq> []"
    unfolding rmatch_service_rest by blast
  ultimately show False by contradiction
qed

lemma domain_starts_with_dot:
  assumes "toUpperCase ds = ''.AMAZONAWS.COM''"
  shows "\<exists>d. ds = CHR ''.'' # d"
proof (cases ds)
  case Nil
  with assms show ?thesis by (simp add: toUpperCase_def)
next
  case (Cons c d)
  with assms have "upper_char c = CHR ''.''" by (simp add: toUpperCase_def)
  moreover have "upper_char CHR ''.'' = CHR ''.''" by (simp add: upper_char_def in_range_def)
  ultimately have "upper_char CHR ''.'' = upper_char c" by simp
  then have "c = CHR ''.''" by (simp only: upper_char_dot)
  with Cons show ?thesis by simp
qed

lemma dot_not_word: "\<not> in_class word_chars CHR ''.''"
  by (simp add: in_class_def word_chars_def in_range_def)

lemma word_run_unique:
  "m @ CHR ''.'' # r = m' @ CHR ''.'' # r' \<Longrightarrow> list_all (in_class word_chars) m \<Longrightarrow>
   list_all (in_class word_chars) m' \<Longrightarrow> m = m'"
proof (induction m arbitrary: m')
  case Nil
  then show ?case by (cases m') (auto simp: dot_not_word)
next
  case (Cons c m)
  then show ?case by (cases m') (auto simp: dot_not_word)
qed

lemma service_at_unique:
  assumes "service_at url pre m" "service_at url pre m'"
  shows "m = m'"
proof -
  from assms(1) obtain dom post where 1: "url = pre @ m @ dom @ post"
    "list_all (in_class word_chars) m" "toUpperCase dom = ''.AMAZONAWS.COM''"
    unfolding service_at_def by blast
  from assms(2) obtain dom' post' where 2: "url = pre @ m' @ dom' @ post'"
    "list_all (in_class word_chars) m'" "toUpperCase dom' = ''.AMAZONAWS.COM''"
    unfolding service_at_def by blast
  from domain_starts_with_dot [OF 1(3)] obtain d where d: "dom = CHR ''.'' # d" by blast
  from domain_starts_with_dot [OF 2(3)] obtain d' where d': "dom' = CHR ''.'' # d'" by blast
  from 1(1) 2(1) d d' have "m @ CHR ''.'' # (d @ post) = m' @ CHR ''.'' # (d' @ post')" by simp
  then show ?thesis using 1(2) 2(2) by (rule word_run_unique)
qed

lemma service_at_prefix: "service_at url pre m \<Longrightarrow> \<exists>suf. url = pre @ suf"
  unfolding service_at_def by blast

lemma service_exec_leftmost:
  assumes "exec_group1 True service_group service_rest url = Some m"
  shows "leftmost_service url m"
proof -
  from exec_leftmost [OF assms] obtain n where n: "n \<le> length url"
    and here: "match_here True service_group service_rest (drop n url) = Some m"
    and before: "\<And>k. k < n \<Longrightarrow> match_here True service_group service_rest (drop k url) = None"
    by blast
  from match_here_service_Some [OF here, of "take n url"]
  have at: "service_at url (take n url) m" by simp
  have "\<not> service_at url pre' m'" if "length pre' < length (take n url)" for pre' m'
  proof
    assume a: "service_at url pre' m'"
    from service_at_prefix [OF a] obtain suf' where s: "url = pre' @ suf'" by blast
    then have d: "drop (length pre') url = suf'" by simp
    from that n have "length pre' < n" by simp
    from before [OF this] d have "match_here True service_group service_rest suf' = None"
      by simp
    then have "\<not> service_at (pre' @ suf') pre' m'" by (rule match_here_service_None)
    with a s show False by simp
  qed
  with at show ?thesis unfolding leftmost_service_def by blast
qed

lemma service_exec_None:
  assumes "exec_group1 True service_group service_rest url = None"
  shows "\<not> service_at url pre m"
proof
  assume "service_at url pre m"
  then obtain dom post where d: "url = pre @ m @ dom @ post" "m \<noteq> []"
    "list_all (in_class word_chars) m" "toUpperCase dom = ''.AMAZONAWS.COM''" "host_end_ok post"
    unfolding service_at_def by blast
  from d(3) have run: "list_all (amatch True (Cls word_chars)) m" by (simp only: word_run)
  have "rmatch True service_rest (dom @ post) = []"
    by (rule exec_None [OF assms [unfolded service_group_def] d(1,2) run])
  moreover from d(4,5) have "rmatch True service_rest (dom @ post) \<noteq> []"
    unfolding rmatch_service_rest by blast
  ultimately show False by contradiction
qed

lemma leftmost_service_unique:
  assumes "leftmost_service url m" "leftmost_service url m'"
  shows "m = m'"
proof -
  from assms(1) obtain pre where 1: "service_at url pre m"
    "\<And>p x. length p < length pre \<Longrightarrow> \<not> service_at url p x"
    unfolding leftmost_service_def by blast
  from assms(2) obtain pre' where 2: "service_at url pre' m'"
    "\<And>p x. length p < length pre' \<Longrightarrow> \<not> service_at url p x"
    unfolding leftmost_service_def by blast
  from 1(1) 2(2) have "\<not> length pre < length pre'" by blast
  moreover from 2(1) 1(2) have "\<not> length pre' < length pre" by blast
  ultimately have len: "length pre = length pre'" by simp
  from service_at_prefix [OF 1(1)] service_at_prefix [OF 2(1)] obtain suf suf' where
    "url = pre @ suf" "url = pre' @ suf'" by blast
  then have "pre @ suf = pre' @ suf'" by simp
  with len have "pre = pre'" by simp
  with 1(1) 2(1) show ?thesis by (simp add: service_at_unique)
qed

lemma service_exec_iff:
  "exec_group1 True service_group service_rest url = Some m \<longleftrightarrow> leftmost_service url m"
proof
  assume "exec_group1 True service_group service_rest url = Some m"
  then show "leftmost_service url m" by (rule service_exec_leftmost)
next
  assume l: "leftmost_service url m"
  show "exec_group1 True service_group service_rest url = Some m"
  proof (cases "exec_group1 True service_group service_rest url")
    case None
    from l obtain pre where "service_at url pre m" unfolding leftmost_service_def by blast
    with service_exec_None [OF None] show ?thesis by blast
  next
    case (Some m')
    from service_exec_leftmost [OF Some] l have "m' = m" by (rule leftmost_service_unique)
    with Some show ?thesis by simp
  qed
qed

lemma leftmost_service_maximal:
  assumes "leftmost_service url m"
  shows "maximal_word_run url m"
proof -
  from assms obtain pre where at: "service_at url pre m"
    and before: "\<And>p x. length p < length pre \<Longrightarrow> \<not> service_at url p x"
    unfolding leftmost_service_def by blast
  from at obtain dom post where d: "url = pre @ m @ dom @ post" "m \<noteq> []"
    "list_all (in_class word_chars) m" "toUpperCase dom = ''.AMAZONAWS.COM''" "host_end_ok post"
    unfolding service_at_def by blast
  from domain_starts_with_dot [OF d(4)] obtain t where t: "dom = CHR ''.'' # t" by blast
  have edge: "pre = [] \<or> \<not> in_class word_chars (last pre)"
  proof (rule ccontr)
    assume "\<not> (pre = [] \<or> \<not> in_class word_chars (last pre))"
    then have ne: "pre \<noteq> []" and w: "in_class word_chars (last pre)" by simp_all
    from ne have "(butlast pre @ [last pre]) @ m @ dom @ post = pre @ m @ dom @ post"
      by simp
    then have "butlast pre @ (last pre # m) @ dom @ post = pre @ m @ dom @ post" by simp
    with d(1) have "url = butlast pre @ (last pre # m) @ dom @ post" by simp
    with w d(3-5) have "service_at url (butlast pre) (last pre # m)"
      unfolding service_at_def by (intro exI [of _ dom] exI [of _ post]) simp
    moreover from ne have "length (butlast pre) < length pre" by simp
    ultimately show False using before by blast
  qed
  from d(1) t have "url = pre @ m @ CHR ''.'' # (t @ post)" by simp
  with d(2,3) edge show ?thesis unfolding maximal_word_run_def by blast
qed

section \<open>Evaluating a search\<close>

text \<open>
  When the match fails at the first character of a run of group characters, it fails at
  every position inside the run, because these positions offer a subset of the same ways
  to match the group. The search may go on behind the run.
\<close>

lemma first_ok_append_None: "first_ok ic rest (xs @ ys) = None \<Longrightarrow> first_ok ic rest xs = None"
  by (simp add: first_ok_None_iff)

lemma match_here_None_iff:
  "match_here ic g rest s = None \<longleftrightarrow> first_ok ic rest (rmatch ic g s) = None"
  by (simp add: match_here_def split: option.splits)

lemma exec_skip_run:
  "amatch ic a c \<Longrightarrow> match_here ic (Plus a) rest (c # cs) = None \<Longrightarrow>
   exec_group1 ic (Plus a) rest cs = exec_group1 ic (Plus a) rest (dropWhile (amatch ic a) cs)"
proof (induction cs arbitrary: c)
  case Nil
  then show ?case by simp
next
  case (Cons d ds)
  show ?case
  proof (cases "amatch ic a d")
    case True
    from Cons.prems have "first_ok ic rest (plus_match ic a (d # ds) @ [d # ds]) = None"
      by (simp add: match_here_None_iff)
    then have "match_here ic (Plus a) rest (d # ds) = None"
      by (simp add: match_here_None_iff first_ok_append_None)
    with True Cons.IH [of d] show ?thesis by simp
  next
    case False
    then show ?thesis by simp
  qed
qed

lemma exec_group1_Plus_cons:
  "exec_group1 ic (Plus a) rest (c # cs) =
     (if amatch ic a c
      then (case match_here ic (Plus a) rest (c # cs) of
              Some m \<Rightarrow> Some m
            | None \<Rightarrow> exec_group1 ic (Plus a) rest (dropWhile (amatch ic a) cs))
      else exec_group1 ic (Plus a) rest cs)"
proof (cases "amatch ic a c")
  case True
  then show ?thesis
    by (auto simp: exec_skip_run split: option.splits)
next
  case False
  then have "match_here ic (Plus a) rest (c # cs) = None"
    by (simp add: match_here_def)
  with False show ?thesis by simp
qed

lemmas regex_eval =
  resolve_region_def resolve_service_def service_group_def service_rest_def region_group_def
  region_rest_def host_end_def lits_def word_chars_def in_class_def in_range_def upper_char_def
  lower_char_def match_here_def exec_group1_Plus_cons

section \<open>Region and service from the URL\<close>

lemma resolve_service_exec:
  "resolve_service None url =
     (case exec_group1 True service_group service_rest url of
        None \<Rightarrow> Inl TypeError | Some m \<Rightarrow> Inr m)"
  by (simp add: resolve_service_def)

text \<open>
  C2 (as the code has it). The patterns expect the region label directly before the
  service label: for \<open>https://us-west-2.dynamodb.amazonaws.com/\<close>, with no override, the
  region is \<open>us-west-2\<close> and the service is \<open>dynamodb\<close>. In general, with no override,
  the service is \<open>s\<close> exactly when \<open>s\<close> is the non-empty run of word characters at the
  leftmost place of the URL where such a run is followed by \<open>.amazonaws.com\<close> in any
  letter case and then by \<open>/\<close>, \<open>:\<close> or the end; resolution throws, and then a
  \<open>TypeError\<close>, exactly when the URL has no such place. The run found is maximal: no
  word character stands directly before it and the dot stands directly behind it. It
  need not be the first label of the host name, nor a whole label.
\<close>

theorem region_before_service:
  "resolve_region None ''https://us-west-2.dynamodb.amazonaws.com/'' = Inr ''us-west-2''
   \<and> resolve_service None ''https://us-west-2.dynamodb.amazonaws.com/'' = Inr ''dynamodb''
   \<and> (resolve_service None url = Inr s \<longleftrightarrow> leftmost_service url s)
   \<and> (resolve_service None url = Inl e \<longleftrightarrow>
        e = TypeError \<and> (\<forall>pre m. \<not> service_at url pre m))
   \<and> (leftmost_service url s \<longrightarrow> maximal_word_run url s)"
proof (intro conjI)
  show "resolve_region None ''https://us-west-2.dynamodb.amazonaws.com/'' = Inr ''us-west-2''"
    by (simp add: regex_eval del: exec_group1.simps(2))
  show "resolve_service None ''https://us-west-2.dynamodb.amazonaws.com/'' = Inr ''dynamodb''"
    by (simp add: regex_eval del: exec_group1.simps(2))
  show "resolve_service None url = Inr s \<longleftrightarrow> leftmost_service url s"
    by (simp add: resolve_service_exec service_exec_iff [symmetric] split: option.splits)
  show "resolve_service None url = Inl e \<longleftrightarrow>
      e = TypeError \<and> (\<forall>pre m. \<not> service_at url pre m)"
  proof (cases "exec_group1 True service_group service_rest url")
    case None
    from service_exec_None [OF None] None show ?thesis
      by (auto simp: resolve_service_exec)
  next
    case (Some m)
    from service_exec_leftmost [OF Some] obtain pre where "service_at url pre m"
      unfolding leftmost_service_def by blast
    with Some show ?thesis by (auto simp: resolve_service_exec)
  qed
  show "leftmost_service url s \<longrightarrow> maximal_word_run url s"
    by (simp add: leftmost_service_maximal)
qed

theorem region_before_service_witness:
  "resolve_service None ''https://search-logs.eu-west-1.es.amazonaws.com:443/_search'' = Inr ''es''
   \<and> leftmost_service ''https://search-logs.eu-west-1.es.amazonaws.com:443/_search'' ''es''
   \<and> maximal_word_run ''https://search-logs.eu-west-1.es.amazonaws.com:443/_search'' ''es''
   \<and> resolve_service None ''https://example.com/'' = Inl TypeError
   \<and> (\<forall>pre m. \<not> service_at ''https://example.com/'' pre m)"
proof -
  have 1: "resolve_service None ''https://search-logs.eu-west-1.es.amazonaws.com:443/_search'' =
      Inr ''es''"
    by (simp add: regex_eval del: exec_group1.simps(2))
  have 2: "resolve_service None ''https://example.com/'' = Inl TypeError"
    by (simp add: regex_eval del: exec_group1.simps(2))
  from 1 region_before_service
    [of "''https://search-logs.eu-west-1.es.amazonaws.com:443/_search''" "''es''" TypeError]
  have 3: "leftmost_service ''https://search-logs.eu-west-1.es.amazonaws.com:443/_search'' ''es''
      \<and> maximal_word_run ''https://search-logs.eu-west-1.es.amazonaws.com:443/_search'' ''es''"
    by blast
  from 2 region_before_service [of "''https://example.com/''" "''es''" TypeError]
  have 4: "\<forall>pre m. \<not> service_at ''https://example.com/'' pre m"
    by blast
  from 1 2 3 4 show ?thesis by blast
qed

text \<open>
  The claim as stated fails: for \<open>https://dynamodb.us-west-2.amazonaws.com/\<close> (with or
  without the final slash) the region pattern matches nowhere, so region resolution
  throws, and the service pattern captures \<open>2\<close>, not the first label \<open>dynamodb\<close>.
\<close>

theorem dynamodb_url_not_resolved:
  "resolve_region None ''https://dynamodb.us-west-2.amazonaws.com/'' = Inl TypeError
   \<and> resolve_service None ''https://dynamodb.us-west-2.amazonaws.com/'' = Inr ''2''
   \<and> resolve_region None ''https://dynamodb.us-west-2.amazonaws.com'' = Inl TypeError
   \<and> resolve_service None ''https://dynamodb.us-west-2.amazonaws.com'' = Inr ''2''"
proof (intro conjI)
  show "resolve_region None ''https://dynamodb.us-west-2.amazonaws.com/'' = Inl TypeError"
    by (simp add: regex_eval del: exec_group1.simps(2))
  show "resolve_service None ''https://dynamodb.us-west-2.amazonaws.com/'' = Inr ''2''"
    by (simp add: regex_eval del: exec_group1.simps(2))
  show "resolve_region None ''https://dynamodb.us-west-2.amazonaws.com'' = Inl TypeError"
    by (simp add: regex_eval del: exec_group1.simps(2))
  show "resolve_service None ''https://dynamodb.us-west-2.amazonaws.com'' = Inr ''2''"
    by (simp add: regex_eval del: exec_group1.simps(2))
qed

lemma service_is_not_a_whole_label:
  "resolve_service None ''https://x.execute-api.amazonaws.com/'' = Inr ''api''"
  by (simp add: regex_eval del: exec_group1.simps(2))

text \<open>
  C3 (as the code has it). With no override, region resolution fails exactly when the
  region pattern matches nowhere in the URL, and it then fails with the \<open>TypeError\<close> that
  indexing the \<open>null\<close> result of \<open>exec\<close> throws; it never yields an undefined region.
\<close>

theorem unresolved_region_throws_type_error:
  "((\<forall>m. \<not> region_match url m) \<longrightarrow> resolve_region None url = Inl TypeError)
   \<and> (resolve_region None url = Inl e \<longrightarrow> e = TypeError \<and> (\<forall>m. \<not> region_match url m))
   \<and> (resolve_region None url = Inr r \<longrightarrow> region_match url r)"
proof (cases "exec_group1 True region_group region_rest url")
  case None
  then have "resolve_region None url = Inl TypeError" by (simp add: resolve_region_def)
  with region_exec_None [OF None] show ?thesis by simp
next
  case (Some m)
  then have "resolve_region None url = Inr m" by (simp add: resolve_region_def)
  with region_exec_Some [OF Some] show ?thesis by auto
qed

theorem unresolved_region_throws_type_error_witness:
  "(\<forall>m. \<not> region_match ''https://example.com/'' m)
   \<and> resolve_region None ''https://example.com/'' = Inl TypeError"
proof -
  have "resolve_region None ''https://example.com/'' = Inl TypeError"
    by (simp add: regex_eval del: exec_group1.simps(2))
  with unresolved_region_throws_type_error [of "''https://example.com/''" TypeError]
  show ?thesis by simp
qed

text \<open>
  The claim as stated fails: the failure is the engine's \<open>TypeError\<close>, not an error that
  names the region.
\<close>

theorem unresolved_region_is_untyped:
  "resolve_region None ''http://localhost:9200/_cat/indices'' = Inl TypeError
   \<and> err_name TypeError = ''TypeError''"
  by (simp add: regex_eval TypeError_def del: exec_group1.simps(2))

end
